theory Spec2Isabelle
  imports
    Complex_Main
    "HOL-Library.Multiset"
    "HOL-Library.List_Lexorder"
    "HOL-Library.Char_ord"
begin

section \<open>JavaScript numbers\<close>

text \<open>
  The script computes with JavaScript numbers, which are IEEE doubles. They are modelled
  as real numbers together with the special values \<open>Infinity\<close>, \<open>-Infinity\<close> and \<open>NaN\<close>.
  The range of the doubles is modelled: a result of an operation whose magnitude reaches
  \<open>2^1024 - 2^970\<close> overflows to an infinity, and one whose magnitude is at most
  \<open>2^-1075\<close>, half the least positive double, underflows to zero. Inside that range a
  result is the exact real: rounding to 53 bits is not modelled, and neither is the sign
  of zero (\<open>1 / 0\<close> is \<open>Infinity\<close>). Every operator the script uses is written out on
  the special values, since HOL's own \<open>x / 0 = 0\<close> is not what the script computes.
\<close>

datatype jsnum = Num real | PInf | NInf | NaN

definition overflow_threshold :: real where
  "overflow_threshold = 2 ^ 1024 - 2 ^ 970"

definition underflow_threshold :: real where
  "underflow_threshold = 1 / 2 ^ 1075"

text \<open>The value of an operation whose exact result is the real \<open>x\<close>.\<close>

definition finite_result :: "real \<Rightarrow> jsnum" where
  "finite_result x =
     (if overflow_threshold \<le> \<bar>x\<bar> then (if 0 < x then PInf else NInf)
      else if \<bar>x\<bar> \<le> underflow_threshold then Num 0
      else Num x)"

fun js_neg :: "jsnum \<Rightarrow> jsnum" where
  "js_neg (Num a) = Num (- a)"
| "js_neg PInf = NInf"
| "js_neg NInf = PInf"
| "js_neg NaN = NaN"

fun js_add :: "jsnum \<Rightarrow> jsnum \<Rightarrow> jsnum" where
  "js_add (Num a) (Num b) = finite_result (a + b)"
| "js_add (Num a) PInf = PInf"
| "js_add (Num a) NInf = NInf"
| "js_add PInf (Num b) = PInf"
| "js_add PInf PInf = PInf"
| "js_add PInf NInf = NaN"
| "js_add NInf (Num b) = NInf"
| "js_add NInf PInf = NaN"
| "js_add NInf NInf = NInf"
| "js_add NaN y = NaN"
| "js_add x NaN = NaN"

definition js_sub :: "jsnum \<Rightarrow> jsnum \<Rightarrow> jsnum" where
  "js_sub x y = js_add x (js_neg y)"

text \<open>An infinity times a finite value: \<open>NaN\<close> at zero, otherwise the sign of the product.\<close>

definition inf_times :: "bool \<Rightarrow> real \<Rightarrow> jsnum" where
  "inf_times positive b =
     (if b = 0 then NaN else if (0 < b) = positive then PInf else NInf)"

fun js_mul :: "jsnum \<Rightarrow> jsnum \<Rightarrow> jsnum" where
  "js_mul (Num a) (Num b) = finite_result (a * b)"
| "js_mul (Num a) PInf = inf_times True a"
| "js_mul (Num a) NInf = inf_times False a"
| "js_mul PInf (Num b) = inf_times True b"
| "js_mul PInf PInf = PInf"
| "js_mul PInf NInf = NInf"
| "js_mul NInf (Num b) = inf_times False b"
| "js_mul NInf PInf = NInf"
| "js_mul NInf NInf = PInf"
| "js_mul NaN y = NaN"
| "js_mul x NaN = NaN"

fun js_div :: "jsnum \<Rightarrow> jsnum \<Rightarrow> jsnum" where
  "js_div (Num a) (Num b) =
     (if b \<noteq> 0 then finite_result (a / b)
      else if a = 0 then NaN
      else if 0 < a then PInf else NInf)"
| "js_div (Num a) PInf = Num 0"
| "js_div (Num a) NInf = Num 0"
| "js_div PInf (Num b) = (if 0 \<le> b then PInf else NInf)"
| "js_div NInf (Num b) = (if 0 \<le> b then NInf else PInf)"
| "js_div PInf PInf = NaN"
| "js_div PInf NInf = NaN"
| "js_div NInf PInf = NaN"
| "js_div NInf NInf = NaN"
| "js_div NaN y = NaN"
| "js_div x NaN = NaN"

text \<open>The comparison \<open>x < y\<close>: false as soon as one side is \<open>NaN\<close>.\<close>

fun js_lt :: "jsnum \<Rightarrow> jsnum \<Rightarrow> bool" where
  "js_lt (Num a) (Num b) = (a < b)"
| "js_lt (Num a) PInf = True"
| "js_lt NInf (Num b) = True"
| "js_lt NInf PInf = True"
| "js_lt PInf y = False"
| "js_lt x NInf = False"
| "js_lt NaN y = False"
| "js_lt x NaN = False"

text \<open>\<open>x >= y\<close>, used to state that a value is non-negative.\<close>

fun js_ge :: "jsnum \<Rightarrow> jsnum \<Rightarrow> bool" where
  "js_ge (Num a) (Num b) = (b \<le> a)"
| "js_ge PInf (Num b) = True"
| "js_ge (Num a) NInf = True"
| "js_ge PInf NInf = True"
| "js_ge PInf PInf = True"
| "js_ge NInf NInf = True"
| "js_ge NInf (Num b) = False"
| "js_ge (Num a) PInf = False"
| "js_ge NInf PInf = False"
| "js_ge NaN y = False"
| "js_ge x NaN = False"

definition is_integer :: "real \<Rightarrow> bool" where
  "is_integer y = (y = of_int \<lfloor>y\<rfloor>)"

text \<open>
  \<open>Math.pow(x, y)\<close>. A zero exponent gives 1 for every base; a negative finite base
  has a value only at an integer exponent; an infinite exponent on a base of magnitude 1
  gives \<open>NaN\<close> in JavaScript.
\<close>

fun Math_pow :: "jsnum \<Rightarrow> jsnum \<Rightarrow> jsnum" where
  "Math_pow x NaN = NaN"
| "Math_pow x (Num y) =
     (if y = 0 then Num 1
      else case x of
        NaN \<Rightarrow> NaN
      | Num a \<Rightarrow>
          (if 0 < a then finite_result (a powr y)
           else if a = 0 then (if 0 < y then Num 0 else PInf)
           else if is_integer y then finite_result (a powi \<lfloor>y\<rfloor>)
           else NaN)
      | PInf \<Rightarrow> (if 0 < y then PInf else Num 0)
      | NInf \<Rightarrow>
          (if 0 < y then (if is_integer y \<and> odd \<lfloor>y\<rfloor> then NInf else PInf)
           else Num 0))"
| "Math_pow x PInf =
     (case x of
        NaN \<Rightarrow> NaN
      | Num a \<Rightarrow> (if 1 < \<bar>a\<bar> then PInf else if \<bar>a\<bar> = 1 then NaN else Num 0)
      | PInf \<Rightarrow> PInf
      | NInf \<Rightarrow> PInf)"
| "Math_pow x NInf =
     (case x of
        NaN \<Rightarrow> NaN
      | Num a \<Rightarrow> (if 1 < \<bar>a\<bar> then Num 0 else if \<bar>a\<bar> = 1 then NaN else PInf)
      | PInf \<Rightarrow> Num 0
      | NInf \<Rightarrow> Num 0)"

text \<open>\<open>Math.round\<close> rounds to the nearest integer, a half towards \<open>+Infinity\<close>.\<close>

fun Math_round :: "jsnum \<Rightarrow> jsnum" where
  "Math_round (Num a) = Num (of_int \<lfloor>a + 1 / 2\<rfloor>)"
| "Math_round x = x"

text \<open>The expression \<open>Math.round(x * 10000) / 10000\<close> of \<open>calculateAHP\<close>.\<close>

definition round4 :: "jsnum \<Rightarrow> jsnum" where
  "round4 x = js_div (Math_round (js_mul x (Num 10000))) (Num 10000)"

section \<open>The Random Index table\<close>

definition RI :: "nat \<rightharpoonup> real" where
  "RI = map_of
     [(1, 0), (2, 0), (3, 0.58), (4, 0.90), (5, 1.12), (6, 1.24), (7, 1.32), (8, 1.41),
      (9, 1.45), (10, 1.49), (11, 1.51), (12, 1.48), (13, 1.56), (14, 1.57), (15, 1.59),
      (16, 1.60)]"

text \<open>
  \<open>RI[n] || 1.5\<close>: the right operand is taken when the left one is falsy, that is when
  the key is missing (\<open>undefined\<close>) and also when the entry is the number 0.
\<close>

definition ri_or_default :: "nat \<Rightarrow> real" where
  "ri_or_default n = (case RI n of None \<Rightarrow> 1.5 | Some v \<Rightarrow> if v = 0 then 1.5 else v)"

section \<open>Judgments and item identifiers\<close>

text \<open>
  One record of a group's comparison list. The ratio is \<open>None\<close> when the field is
  \<open>null\<close> or missing, which is what the test \<open>ratio != null\<close> rejects.
\<close>

record judgement =
  left :: string
  right :: string
  ahp_ratio_aij :: "jsnum option"

definition flatMap :: "('a \<Rightarrow> 'b list) \<Rightarrow> 'a list \<Rightarrow> 'b list" where
  "flatMap f xs = concat (map f xs)"

text \<open>\<open>new Set(xs)\<close> spread into an array: the first occurrence of each element, in order.\<close>

definition new_Set :: "'a list \<Rightarrow> 'a list" where
  "new_Set xs = fold (\<lambda>x acc. if x \<in> set acc then acc else acc @ [x]) xs []"

text \<open>Line 80 of the script: the sorted distinct identifiers of a comparison list.\<close>

definition item_ids :: "judgement list \<Rightarrow> string list" where
  "item_ids comparisons = sort (new_Set (flatMap (\<lambda>c. [left c, right c]) comparisons))"

text \<open>\<open>ids.indexOf(x)\<close>: the first position of \<open>x\<close>, or \<open>-1\<close>.\<close>

fun indexOf :: "'a list \<Rightarrow> 'a \<Rightarrow> int" where
  "indexOf [] x = - 1"
| "indexOf (y # ys) x =
     (if y = x then 0 else (let k = indexOf ys x in if k < 0 then - 1 else k + 1))"

section \<open>buildMatrix\<close>

text \<open>A cell of the matrix under construction is \<open>null\<close> (\<open>None\<close>) or a number.\<close>

type_synonym cell = "jsnum option"

text \<open>The first loop: 1 on the diagonal, \<open>null\<close> elsewhere.\<close>

definition init_matrix :: "nat \<Rightarrow> cell list list" where
  "init_matrix n =
     map (\<lambda>i. map (\<lambda>j. if i = j then Some (Num 1) else None) [0..<n]) [0..<n]"

text \<open>The assignment \<open>matrix[i][j] = v\<close>.\<close>

definition set_cell :: "'a list list \<Rightarrow> nat \<Rightarrow> nat \<Rightarrow> 'a \<Rightarrow> 'a list list" where
  "set_cell m i j v = m[i := (m ! i)[j := v]]"

text \<open>The body of the loop over the comparisons.\<close>

definition fill_step :: "string list \<Rightarrow> judgement \<Rightarrow> cell list list \<Rightarrow> cell list list" where
  "fill_step ids c m =
     (let i = indexOf ids (left c); j = indexOf ids (right c)
      in case ahp_ratio_aij c of
           None \<Rightarrow> m
         | Some ratio \<Rightarrow>
             if 0 \<le> i \<and> 0 \<le> j
             then set_cell (set_cell m (nat i) (nat j) (Some ratio))
                    (nat j) (nat i) (Some (js_div (Num 1) ratio))
             else m)"

text \<open>The last loop: every cell that is still \<open>null\<close> becomes 1.\<close>

definition fill_default :: "nat \<Rightarrow> cell list list \<Rightarrow> jsnum list list" where
  "fill_default n m =
     map (\<lambda>i. map (\<lambda>j. case m ! i ! j of None \<Rightarrow> Num 1 | Some v \<Rightarrow> v) [0..<n]) [0..<n]"

definition buildMatrix :: "string list \<Rightarrow> judgement list \<Rightarrow> jsnum list list" where
  "buildMatrix ids comparisons =
     (let n = length ids
      in fill_default n (fold (fill_step ids) comparisons (init_matrix n)))"

section \<open>calculateWeights\<close>

text \<open>
  The loops run over \<open>0..<n\<close> with \<open>n\<close> the parameter, as in the script. The only caller
  passes the \<open>n \<times> n\<close> matrix of \<open>buildMatrix\<close>, so every read is in range
  (\<open>buildMatrix_shape\<close> below).
\<close>

definition row_product :: "jsnum list list \<Rightarrow> nat \<Rightarrow> nat \<Rightarrow> jsnum" where
  "row_product matrix n i = fold (\<lambda>j product. js_mul product (matrix ! i ! j)) [0..<n] (Num 1)"

definition geoMeans :: "jsnum list list \<Rightarrow> nat \<Rightarrow> jsnum list" where
  "geoMeans matrix n =
     map (\<lambda>i. Math_pow (row_product matrix n i) (js_div (Num 1) (Num (real n)))) [0..<n]"

text \<open>\<open>xs.reduce((a, b) => a + b, 0)\<close>.\<close>

definition js_sum :: "jsnum list \<Rightarrow> jsnum" where
  "js_sum xs = fold (\<lambda>b a. js_add a b) xs (Num 0)"

definition calculateWeights :: "jsnum list list \<Rightarrow> nat \<Rightarrow> jsnum list" where
  "calculateWeights matrix n =
     (let gs = geoMeans matrix n; sum = js_sum gs
      in map (\<lambda>g. js_div g sum) gs)"

section \<open>calculateCR\<close>

text \<open>The object \<open>{ lambdaMax, CI, CR }\<close> that \<open>calculateCR\<close> returns.\<close>

record consistency =
  lambdaMax :: jsnum
  CI :: jsnum
  CR :: jsnum

definition Aw :: "jsnum list list \<Rightarrow> jsnum list \<Rightarrow> nat \<Rightarrow> jsnum list" where
  "Aw matrix weights n =
     map (\<lambda>i. fold (\<lambda>j sum. js_add sum (js_mul (matrix ! i ! j) (weights ! j))) [0..<n] (Num 0))
       [0..<n]"

definition calculateCR :: "jsnum list list \<Rightarrow> jsnum list \<Rightarrow> nat \<Rightarrow> consistency" where
  "calculateCR matrix weights n =
     (let aw = Aw matrix weights n;
          lam = js_div
                  (fold (\<lambda>i l. js_add l (js_div (aw ! i) (weights ! i))) [0..<n] (Num 0))
                  (Num (real n));
          ci = js_div (js_sub lam (Num (real n))) (js_sub (Num (real n)) (Num 1));
          ri = ri_or_default n;
          cr = (if 0 < ri then js_div ci (Num ri) else Num 0)
      in \<lparr>lambdaMax = lam, CI = ci, CR = cr\<rparr>)"

section \<open>calculateAHP\<close>

record section_result =
  res_n :: nat
  res_weights :: "string \<rightharpoonup> jsnum"
  res_lambdaMax :: jsnum
  res_CI :: jsnum
  res_CR :: jsnum
  res_consistent :: bool

definition sections :: "string list" where
  "sections = [''dimensions'', ''A'', ''B'', ''C'', ''D'']"

text \<open>
  The loop \<open>ids.forEach((id, i) => weightMap[id] = ...)\<close>, with the object as a map from
  identifiers to numbers. Identifiers that name an inherited property of a JavaScript
  object, such as \<open>__proto__\<close>, are outside the model.
\<close>

definition weightMap :: "string list \<Rightarrow> jsnum list \<Rightarrow> (string \<rightharpoonup> jsnum)" where
  "weightMap ids weights =
     fold (\<lambda>(id, i) wm. wm(id \<mapsto> round4 (weights ! i))) (zip ids [0..<length ids]) Map.empty"

text \<open>The body of the loop over the sections, for a non-empty comparison list.\<close>

definition evaluate_section :: "judgement list \<Rightarrow> section_result" where
  "evaluate_section comparisons =
     (let ids = item_ids comparisons;
          n = length ids;
          matrix = buildMatrix ids comparisons;
          weights = calculateWeights matrix n;
          c = calculateCR matrix weights n
      in \<lparr>res_n = n,
          res_weights = weightMap ids weights,
          res_lambdaMax = round4 (lambdaMax c),
          res_CI = round4 (CI c),
          res_CR = round4 (CR c),
          res_consistent = js_lt (CR c) (Num 0.1)\<rparr>)"

datatype error = TypeError | SyntaxError

text \<open>
  A parsed submission. \<open>comparisons\<close> is \<open>None\<close> when the block is missing; a group is a
  key of the block, \<open>None\<close> when the submission has no such key. The \<open>meta\<close> block is
  not read by the evaluation and is kept as an opaque value.
\<close>

record submission =
  meta :: "string option"
  comparisons :: "(string \<rightharpoonup> judgement list) option"

type_synonym results = "string \<rightharpoonup> section_result"

definition section_step ::
  "(string \<rightharpoonup> judgement list) \<Rightarrow> string \<Rightarrow> results \<Rightarrow> results" where
  "section_step block section results =
     (case block section of
        None \<Rightarrow> results
      | Some cs \<Rightarrow> if length cs = 0 then results else results(section \<mapsto> evaluate_section cs))"

text \<open>
  Reading \<open>data.comparisons[section]\<close> throws a \<open>TypeError\<close> when \<open>data.comparisons\<close> is
  undefined; the list of sections is not empty, so the first iteration throws.
\<close>

definition calculateAHP :: "submission \<Rightarrow> error + results" where
  "calculateAHP data =
     (case comparisons data of
        None \<Rightarrow> Inl TypeError
      | Some block \<Rightarrow> Inr (fold (section_step block) sections Map.empty))"

section \<open>doPost\<close>

text \<open>
  The spreadsheet is modelled by the rows appended to its sheets: one row per raw
  submission and one per computed result (the cells of a row, its time stamp and the
  sheets of detailed weights are left out). The request body either fails to parse,
  and \<open>JSON.parse\<close> throws, or is a submission. The body of the \<open>try\<close> block runs in
  the order of the script: store the raw data, evaluate, store the results; the \<open>catch\<close>
  turns the error into the response.
\<close>

record spreadsheet =
  raw_rows :: "submission list"
  result_rows :: "(submission \<times> results) list"

datatype request = Unparseable | Parsed submission

datatype response = Ok_response results | Error_response error

definition saveRawData :: "spreadsheet \<Rightarrow> submission \<Rightarrow> spreadsheet" where
  "saveRawData ss data = ss\<lparr>raw_rows := raw_rows ss @ [data]\<rparr>"

definition saveResults :: "spreadsheet \<Rightarrow> submission \<Rightarrow> results \<Rightarrow> spreadsheet" where
  "saveResults ss data rs = ss\<lparr>result_rows := result_rows ss @ [(data, rs)]\<rparr>"

definition doPost :: "request \<Rightarrow> spreadsheet \<Rightarrow> response \<times> spreadsheet" where
  "doPost e ss =
     (case e of
        Unparseable \<Rightarrow> (Error_response SyntaxError, ss)
      | Parsed data \<Rightarrow>
          (let ss1 = saveRawData ss data
           in case calculateAHP data of
                Inl err \<Rightarrow> (Error_response err, ss1)
              | Inr rs \<Rightarrow> (Ok_response rs, saveResults ss1 data rs)))"

section \<open>Auxiliary notions for the proofs\<close>

text \<open>A matrix with \<open>n\<close> rows of \<open>n\<close> cells.\<close>

definition square :: "nat \<Rightarrow> 'a list list \<Rightarrow> bool" where
  "square n m = (length m = n \<and> (\<forall>k<n. length (m ! k) = n))"

text \<open>What one judgment writes into cell \<open>(a, b)\<close>: the reciprocal is assigned last.\<close>

definition written :: "string list \<Rightarrow> judgement \<Rightarrow> nat \<Rightarrow> nat \<Rightarrow> cell" where
  "written ids c a b =
     (case ahp_ratio_aij c of
        None \<Rightarrow> None
      | Some ratio \<Rightarrow>
          if 0 \<le> indexOf ids (left c) \<and> 0 \<le> indexOf ids (right c)
          then if a = nat (indexOf ids (right c)) \<and> b = nat (indexOf ids (left c))
               then Some (js_div (Num 1) ratio)
               else if a = nat (indexOf ids (left c)) \<and> b = nat (indexOf ids (right c))
               then Some ratio
               else None
          else None)"

text \<open>A number that is finite and not zero.\<close>

fun finite_nonzero :: "jsnum \<Rightarrow> bool" where
  "finite_nonzero (Num a) = (a \<noteq> 0)"
| "finite_nonzero PInf = False"
| "finite_nonzero NInf = False"
| "finite_nonzero NaN = False"

text \<open>Two mirrored cells while the matrix is filled: both unset, or finite with product 1.\<close>

definition recip_cells :: "cell \<Rightarrow> cell \<Rightarrow> bool" where
  "recip_cells x y =
     (case (x, y) of
        (None, None) \<Rightarrow> True
      | (Some (Num a), Some (Num b)) \<Rightarrow> a * b = 1
      | _ \<Rightarrow> False)"

definition reciprocal_so_far :: "nat \<Rightarrow> cell list list \<Rightarrow> bool" where
  "reciprocal_so_far n m =
     (square n m \<and> (\<forall>i<n. m ! i ! i = Some (Num 1)) \<and>
      (\<forall>i<n. \<forall>j<n. i \<noteq> j \<longrightarrow> recip_cells (m ! i ! j) (m ! j ! i)))"

text \<open>Concrete judgments used as examples.\<close>

definition null_judgement :: judgement where
  "null_judgement = \<lparr>left = ''A'', right = ''B'', ahp_ratio_aij = None\<rparr>"

definition zero_judgement :: judgement where
  "zero_judgement = \<lparr>left = ''A'', right = ''B'', ahp_ratio_aij = Some (Num 0)\<rparr>"

definition self_judgement :: judgement where
  "self_judgement = \<lparr>left = ''A'', right = ''A'', ahp_ratio_aij = Some (Num 2)\<rparr>"

definition ab_judgement :: "real \<Rightarrow> judgement" where
  "ab_judgement r = \<lparr>left = ''A'', right = ''B'', ahp_ratio_aij = Some (Num r)\<rparr>"

text \<open>A finite, strictly positive number.\<close>

fun is_positive :: "jsnum \<Rightarrow> bool" where
  "is_positive (Num a) = (0 < a)"
| "is_positive PInf = False"
| "is_positive NInf = False"
| "is_positive NaN = False"

definition positive_entries :: "nat \<Rightarrow> jsnum list list \<Rightarrow> bool" where
  "positive_entries n m = (\<forall>i<n. \<forall>j<n. is_positive (m ! i ! j))"

text \<open>A finite number between two bounds, and a matrix of such numbers.\<close>

fun between :: "real \<Rightarrow> real \<Rightarrow> jsnum \<Rightarrow> bool" where
  "between lo hi (Num a) = (lo \<le> a \<and> a \<le> hi)"
| "between lo hi PInf = False"
| "between lo hi NInf = False"
| "between lo hi NaN = False"

definition entries_between :: "real \<Rightarrow> real \<Rightarrow> nat \<Rightarrow> jsnum list list \<Rightarrow> bool" where
  "entries_between lo hi n m = (\<forall>i<n. \<forall>j<n. between lo hi (m ! i ! j))"

text \<open>Judgments with ratios at the edge of the range of the doubles.\<close>

definition tiny_judgement :: judgement where
  "tiny_judgement = \<lparr>left = ''A'', right = ''B'', ahp_ratio_aij = Some (Num (1 / 2 ^ 1024))\<rparr>"

definition huge_judgements :: "judgement list" where
  "huge_judgements =
     [\<lparr>left = ''A'', right = ''B'', ahp_ratio_aij = Some (Num (2 ^ 600))\<rparr>,
      \<lparr>left = ''A'', right = ''C'', ahp_ratio_aij = Some (Num (2 ^ 600))\<rparr>]"

definition huge_matrix :: "jsnum list list" where
  "huge_matrix =
     [[Num 1, Num (2 ^ 600), Num (2 ^ 600)],
      [Num (1 / 2 ^ 600), Num 1, Num 1],
      [Num (1 / 2 ^ 600), Num 1, Num 1]]"

definition unit_self_judgement :: judgement where
  "unit_self_judgement = \<lparr>left = ''A'', right = ''A'', ahp_ratio_aij = Some (Num 1)\<rparr>"

definition scenario_dimensions :: "judgement list" where
  "scenario_dimensions =
     [\<lparr>left = ''A'', right = ''B'', ahp_ratio_aij = Some (Num 2)\<rparr>,
      \<lparr>left = ''A'', right = ''C'', ahp_ratio_aij = Some (Num 4)\<rparr>,
      \<lparr>left = ''B'', right = ''C'', ahp_ratio_aij = Some (Num 2)\<rparr>]"

definition scenario_submission :: submission where
  "scenario_submission =
     \<lparr>meta = None, comparisons = Some [''dimensions'' \<mapsto> scenario_dimensions]\<rparr>"

definition borderline_judgements :: "judgement list" where
  "borderline_judgements =
     [\<lparr>left = ''A'', right = ''B'', ahp_ratio_aij = Some (Num (15069223 / 5451776))\<rparr>,
      \<lparr>left = ''A'', right = ''C'', ahp_ratio_aij = Some (Num 1)\<rparr>,
      \<lparr>left = ''B'', right = ''C'', ahp_ratio_aij = Some (Num 1)\<rparr>]"

definition borderline_matrix :: "jsnum list list" where
  "borderline_matrix =
     [[Num 1, Num (15069223 / 5451776), Num 1],
      [Num (5451776 / 15069223), Num 1, Num 1],
      [Num 1, Num 1, Num 1]]"

definition borderline_weights :: "jsnum list" where
  "borderline_weights = [Num (61009 / 135457), Num (30976 / 135457), Num (43472 / 135457)]"

text \<open>A submission with the block missing, and one with a full, an empty and an unknown group.\<close>

definition no_block_submission :: submission where
  "no_block_submission = \<lparr>meta = Some ''respondent'', comparisons = None\<rparr>"

definition mixed_block :: "string \<rightharpoonup> judgement list" where
  "mixed_block = [''dimensions'' \<mapsto> scenario_dimensions, ''A'' \<mapsto> [], ''Z'' \<mapsto> [zero_judgement]]"

definition mixed_submission :: submission where
  "mixed_submission = \<lparr>meta = None, comparisons = Some mixed_block\<rparr>"

definition empty_spreadsheet :: spreadsheet where
  "empty_spreadsheet = \<lparr>raw_rows = [], result_rows = []\<rparr>"

section \<open>Results inside the range of the doubles\<close>

lemma finite_result_Num:
  "underflow_threshold < \<bar>x\<bar> \<Longrightarrow> \<bar>x\<bar> < overflow_threshold \<Longrightarrow> finite_result x = Num x"
  by (simp add: finite_result_def)

lemma finite_result_1: "finite_result 1 = Num 1"
  by (simp add: finite_result_def overflow_threshold_def underflow_threshold_def)

lemma finite_nonzero_result:
  assumes "finite_nonzero (finite_result x)"
  shows "finite_result x = Num x"
proof (cases "overflow_threshold \<le> \<bar>x\<bar>")
  case True
  then have "finite_result x = PInf \<or> finite_result x = NInf"
    unfolding finite_result_def by (cases "0 < x") simp_all
  with assms show ?thesis by auto
next
  case False
  show ?thesis
  proof (cases "\<bar>x\<bar> \<le> underflow_threshold")
    case True
    with False have "finite_result x = Num 0"
      unfolding finite_result_def by simp
    with assms show ?thesis by simp
  next
    case False
    with \<open>\<not> overflow_threshold \<le> \<bar>x\<bar>\<close> show ?thesis
      unfolding finite_result_def by simp
  qed
qed

text \<open>Unfolded to evaluate an operation at concrete numbers.\<close>

lemmas range_simps = finite_result_def overflow_threshold_def underflow_threshold_def

section \<open>Properties of the matrix construction\<close>

subsection \<open>indexOf\<close>

lemma indexOf_range: "- 1 \<le> indexOf xs x \<and> indexOf xs x < int (length xs)"
  by (induction xs) (auto simp: Let_def)

lemma indexOf_nth: "0 \<le> indexOf xs x \<Longrightarrow> xs ! nat (indexOf xs x) = x"
proof (induction xs)
  case Nil
  then show ?case by simp
next
  case (Cons y ys)
  show ?case
  proof (cases "y = x")
    case True
    then show ?thesis by simp
  next
    case False
    with Cons.prems have k: "0 \<le> indexOf ys x"
      by (simp add: Let_def split: if_splits)
    with False Cons.IH show ?thesis
      by (simp add: Let_def nat_add_distrib)
  qed
qed

lemma indexOf_less: "0 \<le> indexOf xs x \<Longrightarrow> nat (indexOf xs x) < length xs"
  using indexOf_range [of xs x] by simp

lemma indexOf_mem: "x \<in> set xs \<Longrightarrow> 0 \<le> indexOf xs x"
  by (induction xs) (auto simp: Let_def)

lemma indexOf_inj:
  "0 \<le> indexOf xs x \<Longrightarrow> indexOf xs x = indexOf xs y \<Longrightarrow> x = y"
  by (metis indexOf_nth)

lemma square_init: "square n (init_matrix n)"
  by (simp add: square_def init_matrix_def)

lemma init_matrix_nth:
  "i < n \<Longrightarrow> j < n \<Longrightarrow> init_matrix n ! i ! j = (if i = j then Some (Num 1) else None)"
  by (simp add: init_matrix_def)

lemma square_set_cell:
  assumes "square n m"
  shows "square n (set_cell m i j v)"
proof (cases "i < length m")
  case True
  with assms show ?thesis
    by (simp add: square_def set_cell_def nth_list_update)
next
  case False
  with assms show ?thesis
    by (simp add: square_def set_cell_def)
qed

lemma set_cell_nth:
  "square n m \<Longrightarrow> i < n \<Longrightarrow> j < n \<Longrightarrow> a < n \<Longrightarrow>
   set_cell m i j v ! a ! b = (if a = i \<and> b = j then v else m ! a ! b)"
  by (simp add: square_def set_cell_def nth_list_update)

lemma square_fill_step: "square n m \<Longrightarrow> square n (fill_step ids c m)"
  by (simp add: fill_step_def Let_def square_set_cell split: option.splits)

lemma square_fold_fill: "square n m \<Longrightarrow> square n (fold (fill_step ids) cs m)"
  by (induction cs arbitrary: m) (simp_all add: square_fill_step)

lemma fill_step_nth:
  assumes "square (length ids) m" "a < length ids" "b < length ids"
  shows "fill_step ids c m ! a ! b =
           (case written ids c a b of None \<Rightarrow> m ! a ! b | Some v \<Rightarrow> Some v)"
proof (cases "ahp_ratio_aij c")
  case None
  then show ?thesis by (simp add: fill_step_def written_def Let_def)
next
  case (Some ratio)
  show ?thesis
  proof (cases "0 \<le> indexOf ids (left c) \<and> 0 \<le> indexOf ids (right c)")
    case False
    have "fill_step ids c m = m"
      using Some False
      by (cases "0 \<le> indexOf ids (left c)"; simp add: fill_step_def Let_def)
    moreover have "written ids c a b = None"
      using Some False
      by (cases "0 \<le> indexOf ids (left c)"; simp add: written_def)
    ultimately show ?thesis by simp
  next
    case True
    define i where "i = nat (indexOf ids (left c))"
    define j where "j = nat (indexOf ids (right c))"
    from True have i: "i < length ids" and j: "j < length ids"
      by (simp_all add: i_def j_def indexOf_less)
    have sq: "square (length ids) (set_cell m i j (Some ratio))"
      using assms(1) by (rule square_set_cell)
    have step: "fill_step ids c m =
        set_cell (set_cell m i j (Some ratio)) j i (Some (js_div (Num 1) ratio))"
      using Some True by (simp add: fill_step_def Let_def i_def j_def)
    have wr: "written ids c a b =
        (if a = j \<and> b = i then Some (js_div (Num 1) ratio)
         else if a = i \<and> b = j then Some ratio else None)"
      using Some True by (simp add: written_def i_def j_def)
    show ?thesis
      unfolding step wr
      by (simp add: set_cell_nth [OF sq j i assms(2)] set_cell_nth [OF assms(1) i j assms(2)])
  qed
qed

lemma fill_default_shape: "square n (fill_default n m)"
  by (simp add: square_def fill_default_def)

lemma fill_default_nth:
  "i < n \<Longrightarrow> j < n \<Longrightarrow>
   fill_default n m ! i ! j = (case m ! i ! j of None \<Rightarrow> Num 1 | Some v \<Rightarrow> v)"
  by (simp add: fill_default_def)

lemma buildMatrix_shape: "square (length ids) (buildMatrix ids cs)"
  by (simp add: buildMatrix_def Let_def fill_default_shape)

lemma buildMatrix_nth:
  "i < length ids \<Longrightarrow> j < length ids \<Longrightarrow>
   buildMatrix ids cs ! i ! j =
     (case fold (fill_step ids) cs (init_matrix (length ids)) ! i ! j of
        None \<Rightarrow> Num 1 | Some v \<Rightarrow> v)"
  by (simp add: buildMatrix_def Let_def fill_default_nth)

subsection \<open>Null, zero and negative ratios\<close>

lemma fill_step_null: "ahp_ratio_aij c = None \<Longrightarrow> fill_step ids c m = m"
  by (simp add: fill_step_def Let_def)

lemma written_last:
  assumes "ahp_ratio_aij c = Some ratio" "left c \<in> set ids" "right c \<in> set ids"
    "left c \<noteq> right c"
  shows "written ids c (nat (indexOf ids (left c))) (nat (indexOf ids (right c))) = Some ratio"
    and "written ids c (nat (indexOf ids (right c))) (nat (indexOf ids (left c)))
           = Some (js_div (Num 1) ratio)"
proof -
  have i: "0 \<le> indexOf ids (left c)" and j: "0 \<le> indexOf ids (right c)"
    using assms(2,3) by (simp_all add: indexOf_mem)
  have ne: "indexOf ids (left c) \<noteq> indexOf ids (right c)"
    using indexOf_inj [OF i] assms(4) by blast
  with i j have ne': "nat (indexOf ids (left c)) \<noteq> nat (indexOf ids (right c))"
    by simp
  show "written ids c (nat (indexOf ids (left c))) (nat (indexOf ids (right c))) = Some ratio"
    using assms(1) i j ne' by (simp add: written_def)
  show "written ids c (nat (indexOf ids (right c))) (nat (indexOf ids (left c)))
           = Some (js_div (Num 1) ratio)"
    using assms(1) i j by (simp add: written_def)
qed

lemma buildMatrix_last:
  assumes "a < length ids" "b < length ids" "written ids c a b = Some v"
  shows "buildMatrix ids (xs @ [c]) ! a ! b = v"
proof -
  have "square (length ids) (fold (fill_step ids) xs (init_matrix (length ids)))"
    by (simp add: square_fold_fill square_init)
  then show ?thesis
    using assms by (simp add: buildMatrix_nth fill_step_nth)
qed

text \<open>
  Claim C1, as the script has it: a judgment whose ratio is null is skipped, and the
  matrix is the one \<open>buildMatrix\<close> returns for the same identifiers and the list without
  that judgment. A ratio that is zero or negative is not skipped:
  like every other ratio it is stored in its cell, and one divided by it in the mirrored
  cell (shown for the last judgment of the list, which no later one overwrites).
\<close>

theorem null_ratio_skipped_other_ratios_stored:
  "(ahp_ratio_aij c = None \<longrightarrow> buildMatrix ids (xs @ c # ys) = buildMatrix ids (xs @ ys)) \<and>
   (\<forall>ratio. ahp_ratio_aij c = Some ratio \<and> left c \<in> set ids \<and> right c \<in> set ids \<and>
       left c \<noteq> right c \<longrightarrow>
     buildMatrix ids (xs @ [c]) ! nat (indexOf ids (left c)) ! nat (indexOf ids (right c))
       = ratio \<and>
     buildMatrix ids (xs @ [c]) ! nat (indexOf ids (right c)) ! nat (indexOf ids (left c))
       = js_div (Num 1) ratio)"
proof (intro conjI impI allI)
  assume "ahp_ratio_aij c = None"
  then show "buildMatrix ids (xs @ c # ys) = buildMatrix ids (xs @ ys)"
    by (simp add: buildMatrix_def fill_step_null)
next
  fix ratio
  assume h: "ahp_ratio_aij c = Some ratio \<and> left c \<in> set ids \<and> right c \<in> set ids \<and>
       left c \<noteq> right c"
  then have i: "nat (indexOf ids (left c)) < length ids"
    and j: "nat (indexOf ids (right c)) < length ids"
    by (simp_all add: indexOf_less indexOf_mem)
  from h have w: "written ids c (nat (indexOf ids (left c))) (nat (indexOf ids (right c))) = Some ratio"
    "written ids c (nat (indexOf ids (right c))) (nat (indexOf ids (left c)))
           = Some (js_div (Num 1) ratio)"
    using written_last [of c ratio ids] by simp_all
  show "buildMatrix ids (xs @ [c]) ! nat (indexOf ids (left c)) ! nat (indexOf ids (right c))
       = ratio"
    by (rule buildMatrix_last [OF i j w(1)])
  show "buildMatrix ids (xs @ [c]) ! nat (indexOf ids (right c)) ! nat (indexOf ids (left c))
       = js_div (Num 1) ratio"
    by (rule buildMatrix_last [OF j i w(2)])
qed

lemma bm_zero: "buildMatrix [''A'', ''B''] [zero_judgement] = [[Num 1, Num 0], [PInf, Num 1]]"
  by (simp add: buildMatrix_def fill_default_def init_matrix_def fill_step_def set_cell_def
      zero_judgement_def)

lemma bm_empty: "buildMatrix [''A'', ''B''] [] = [[Num 1, Num 1], [Num 1, Num 1]]"
  by (simp add: buildMatrix_def fill_default_def init_matrix_def)

text \<open>
  Claim C1 as the specification states it fails: the only test is \<open>ratio != null\<close>, so
  a ratio of zero is stored, its mirrored cell is \<open>1 / 0 = Infinity\<close>, and the matrix
  differs from the one built without the judgment.
\<close>

theorem zero_ratio_not_discarded:
  "buildMatrix [''A'', ''B''] [zero_judgement] = [[Num 1, Num 0], [PInf, Num 1]] \<and>
   buildMatrix [''A'', ''B''] [zero_judgement] ! 0 ! 1 \<noteq> Num 1 \<and>
   buildMatrix [''A'', ''B''] [zero_judgement] \<noteq> buildMatrix [''A'', ''B''] []"
  by (simp add: bm_zero bm_empty)

text \<open>Claim C1, both parts at concrete judgments: a null ratio and a zero ratio.\<close>

theorem null_ratio_skipped_other_ratios_stored_witness:
  "buildMatrix [''A'', ''B''] ([] @ null_judgement # []) = buildMatrix [''A'', ''B''] ([] @ []) \<and>
   buildMatrix [''A'', ''B''] ([] @ [zero_judgement]) ! 0 ! 1 = Num 0 \<and>
   buildMatrix [''A'', ''B''] ([] @ [zero_judgement]) ! 1 ! 0 = PInf"
proof -
  have n: "ahp_ratio_aij null_judgement = None"
    by (simp add: null_judgement_def)
  have z: "ahp_ratio_aij zero_judgement = Some (Num 0) \<and> left zero_judgement \<in> set [''A'', ''B''] \<and>
      right zero_judgement \<in> set [''A'', ''B''] \<and> left zero_judgement \<noteq> right zero_judgement"
    by (simp add: zero_judgement_def)
  have l: "nat (indexOf [''A'', ''B''] (left zero_judgement)) = 0"
    and r: "nat (indexOf [''A'', ''B''] (right zero_judgement)) = 1"
    by (simp_all add: zero_judgement_def)
  from n z show ?thesis
    using null_ratio_skipped_other_ratios_stored [of null_judgement "[''A'', ''B'']" "[]" "[]"]
      null_ratio_skipped_other_ratios_stored [of zero_judgement "[''A'', ''B'']" "[]" "[]"]
    unfolding l r by simp
qed

subsection \<open>Diagonal and reciprocal cells\<close>

lemma recip_cells_cases:
  assumes "recip_cells x y"
  obtains "x = None" "y = None"
  | a b where "x = Some (Num a)" "y = Some (Num b)" "a * b = 1"
  using assms
  by (cases x; cases y; simp add: recip_cells_def split: jsnum.splits)

lemma finite_nonzero_reciprocal:
  assumes "finite_nonzero ratio" and "finite_nonzero (js_div (Num 1) ratio)"
  obtains r where "ratio = Num r" "r \<noteq> 0" "js_div (Num 1) ratio = Num (1 / r)"
proof -
  from assms(1) obtain r where r: "ratio = Num r" "r \<noteq> 0"
    by (cases ratio) simp_all
  with assms(2) have "finite_nonzero (finite_result (1 / r))"
    by simp
  then have "finite_result (1 / r) = Num (1 / r)"
    by (rule finite_nonzero_result)
  with r have "js_div (Num 1) ratio = Num (1 / r)"
    by simp
  with r show thesis
    by (rule that)
qed

lemma reciprocal_init: "reciprocal_so_far n (init_matrix n)"
  by (simp add: reciprocal_so_far_def square_init init_matrix_nth recip_cells_def)

lemma reciprocal_fill_step:
  assumes inv: "reciprocal_so_far (length ids) m"
    and ok: "\<forall>ratio. ahp_ratio_aij c = Some ratio \<longrightarrow>
               finite_nonzero ratio \<and> finite_nonzero (js_div (Num 1) ratio) \<and>
               left c \<noteq> right c"
  shows "reciprocal_so_far (length ids) (fill_step ids c m)"
proof (cases "ahp_ratio_aij c")
  case None
  with inv show ?thesis by (simp add: fill_step_null)
next
  case (Some ratio)
  with ok have fin: "finite_nonzero ratio" "finite_nonzero (js_div (Num 1) ratio)"
    and ne: "left c \<noteq> right c"
    by simp_all
  from fin obtain r where ratio: "ratio = Num r" and r0: "r \<noteq> 0"
    and q: "js_div (Num 1) (Num r) = Num (1 / r)"
    by (rule finite_nonzero_reciprocal) simp
  from Some ratio have r: "ahp_ratio_aij c = Some (Num r)"
    by simp
  from inv have sq: "square (length ids) m"
    by (simp add: reciprocal_so_far_def)
  show ?thesis
  proof (cases "0 \<le> indexOf ids (left c) \<and> 0 \<le> indexOf ids (right c)")
    case False
    have "fill_step ids c m = m"
      using r False
      by (cases "0 \<le> indexOf ids (left c)"; simp add: fill_step_def Let_def)
    with inv show ?thesis by simp
  next
    case True
    define i where "i = nat (indexOf ids (left c))"
    define j where "j = nat (indexOf ids (right c))"
    have "indexOf ids (left c) \<noteq> indexOf ids (right c)"
      using indexOf_inj [of ids "left c" "right c"] True ne by blast
    moreover from True have "0 \<le> indexOf ids (left c)" and "0 \<le> indexOf ids (right c)"
      by simp_all
    ultimately have ij: "i \<noteq> j"
      by (simp add: i_def j_def eq_nat_nat_iff)
    have wr: "written ids c a b =
        (if a = j \<and> b = i then Some (Num (1 / r))
         else if a = i \<and> b = j then Some (Num r) else None)" for a b
      using r True by (simp add: written_def i_def j_def q del: js_div.simps)
    have cell: "fill_step ids c m ! a ! b =
        (if a = j \<and> b = i then Some (Num (1 / r))
         else if a = i \<and> b = j then Some (Num r) else m ! a ! b)"
      if "a < length ids" "b < length ids" for a b
      using fill_step_nth [OF sq that, of c] by (simp add: wr)
    have diag: "fill_step ids c m ! k ! k = Some (Num 1)" if "k < length ids" for k
      using cell [OF that that] ij inv that by (auto simp: reciprocal_so_far_def)
    have off: "recip_cells (fill_step ids c m ! a ! b) (fill_step ids c m ! b ! a)"
      if "a < length ids" "b < length ids" "a \<noteq> b" for a b
    proof -
      have old: "recip_cells (m ! a ! b) (m ! b ! a)"
        using inv that by (simp add: reciprocal_so_far_def)
      show ?thesis
        using cell [OF that(1,2)] cell [OF that(2,1)] old ij r0
        by (auto simp: recip_cells_def)
    qed
    show ?thesis
      unfolding reciprocal_so_far_def
      using square_fill_step [OF sq] diag off by blast
  qed
qed

lemma reciprocal_fold:
  assumes "reciprocal_so_far (length ids) m"
    and "\<forall>c\<in>set cs. \<forall>ratio. ahp_ratio_aij c = Some ratio \<longrightarrow>
               finite_nonzero ratio \<and> finite_nonzero (js_div (Num 1) ratio) \<and>
               left c \<noteq> right c"
  shows "reciprocal_so_far (length ids) (fold (fill_step ids) cs m)"
  using assms
proof (induction cs arbitrary: m)
  case Nil
  then show ?case by simp
next
  case (Cons c cs)
  have "reciprocal_so_far (length ids) (fill_step ids c m)"
    using Cons.prems by (intro reciprocal_fill_step) simp_all
  then show ?case
    using Cons.IH Cons.prems(2) by simp
qed

text \<open>
  Claim C3, as the script has it: when every ratio that is not null is a finite number other
  than zero whose reciprocal \<open>1 / ratio\<close>, as the script computes it, is finite and other
  than zero too, and no judgment with such a ratio compares an item with itself, the matrix
  has 1 on its diagonal and the product of every cell with its mirrored cell is a finite
  number within \<open>1e-9\<close> of 1.
\<close>

theorem buildMatrix_reciprocal:
  assumes "\<forall>c\<in>set cs. \<forall>ratio. ahp_ratio_aij c = Some ratio \<longrightarrow>
               finite_nonzero ratio \<and> finite_nonzero (js_div (Num 1) ratio) \<and>
               left c \<noteq> right c"
    and "i < length ids" and "j < length ids"
  shows "buildMatrix ids cs ! i ! i = Num 1 \<and>
         (\<exists>p. js_mul (buildMatrix ids cs ! i ! j) (buildMatrix ids cs ! j ! i) = Num p \<and>
              \<bar>p - 1\<bar> \<le> 1 / 10 ^ 9)"
proof -
  define m where "m = fold (fill_step ids) cs (init_matrix (length ids))"
  have inv: "reciprocal_so_far (length ids) m"
    unfolding m_def using reciprocal_init assms(1) by (rule reciprocal_fold)
  have bm: "buildMatrix ids cs ! a ! b = (case m ! a ! b of None \<Rightarrow> Num 1 | Some v \<Rightarrow> v)"
    if "a < length ids" "b < length ids" for a b
    using that by (simp add: buildMatrix_nth m_def)
  have diag: "m ! k ! k = Some (Num 1)" if "k < length ids" for k
    using inv that by (simp add: reciprocal_so_far_def)
  have d: "buildMatrix ids cs ! i ! i = Num 1"
    by (simp add: bm assms(2) diag)
  have p: "js_mul (buildMatrix ids cs ! i ! j) (buildMatrix ids cs ! j ! i) = Num 1"
  proof (cases "i = j")
    case True
    with d show ?thesis by (simp add: finite_result_1)
  next
    case False
    then have "recip_cells (m ! i ! j) (m ! j ! i)"
      using inv assms(2,3) by (simp add: reciprocal_so_far_def)
    then show ?thesis
      by (cases rule: recip_cells_cases) (simp_all add: bm assms(2,3) finite_result_1)
  qed
  from d p show ?thesis by simp
qed

lemma bm_self: "buildMatrix [''A''] [self_judgement] = [[Num (1 / 2)]]"
  by (simp add: buildMatrix_def fill_default_def init_matrix_def fill_step_def set_cell_def
      self_judgement_def range_simps)

lemma bm_tiny:
  "buildMatrix [''A'', ''B''] [tiny_judgement] = [[Num 1, Num (1 / 2 ^ 1024)], [PInf, Num 1]]"
  by (simp add: buildMatrix_def fill_default_def init_matrix_def fill_step_def set_cell_def
      tiny_judgement_def range_simps)

text \<open>
  Claim C3 as the specification states it fails: a judgment of an item against itself
  overwrites the diagonal (here with \<open>1 / 2\<close>); a zero ratio gives the cells \<open>0\<close> and
  \<open>Infinity\<close>, whose product is \<open>NaN\<close>; and the finite ratio \<open>2^-1024\<close> has the reciprocal
  \<open>2^1024\<close>, which overflows to \<open>Infinity\<close>, so that the product is \<open>Infinity\<close>.
\<close>

theorem self_or_zero_judgement_breaks_reciprocity:
  "buildMatrix [''A''] [self_judgement] ! 0 ! 0 \<noteq> Num 1 \<and>
   js_mul (buildMatrix [''A'', ''B''] [zero_judgement] ! 0 ! 1)
          (buildMatrix [''A'', ''B''] [zero_judgement] ! 1 ! 0) = NaN \<and>
   js_mul (buildMatrix [''A'', ''B''] [tiny_judgement] ! 0 ! 1)
          (buildMatrix [''A'', ''B''] [tiny_judgement] ! 1 ! 0) = PInf"
  by (simp add: bm_self bm_zero bm_tiny inf_times_def)

lemma bm_ab: "buildMatrix [''A'', ''B''] [ab_judgement 3] = [[Num 1, Num 3], [Num (1 / 3), Num 1]]"
  by (simp add: buildMatrix_def fill_default_def init_matrix_def fill_step_def set_cell_def
      ab_judgement_def range_simps)

text \<open>Claim C3 at the single judgment \<open>(A, B, 3)\<close>, for the cells \<open>(0, 1)\<close> and \<open>(1, 0)\<close>.\<close>

theorem buildMatrix_reciprocal_witness:
  "buildMatrix [''A'', ''B''] [ab_judgement 3] ! 0 ! 0 = Num 1 \<and>
   (\<exists>p. js_mul (buildMatrix [''A'', ''B''] [ab_judgement 3] ! 0 ! 1)
               (buildMatrix [''A'', ''B''] [ab_judgement 3] ! 1 ! 0) = Num p \<and>
        \<bar>p - 1\<bar> \<le> 1 / 10 ^ 9)"
proof -
  have h: "\<forall>c\<in>set [ab_judgement 3]. \<forall>ratio. ahp_ratio_aij c = Some ratio \<longrightarrow>
               finite_nonzero ratio \<and> finite_nonzero (js_div (Num 1) ratio) \<and>
               left c \<noteq> right c"
    by (simp add: ab_judgement_def range_simps)
  have "(0::nat) < length [''A'', ''B'']" and "(1::nat) < length [''A'', ''B'']"
    by simp_all
  from buildMatrix_reciprocal [OF h this] show ?thesis .
qed

section \<open>Properties of the weights\<close>

lemma overflow_threshold_bounds: "1 < overflow_threshold" "overflow_threshold < 2 ^ 1075"
  by (simp_all add: overflow_threshold_def)

lemma finite_result_within:
  assumes "1 / K \<le> x" and "x \<le> K" and "0 < K" and "K < overflow_threshold"
  shows "finite_result x = Num x"
proof (rule finite_result_Num)
  have x: "0 < x"
    using assms(1,3) by (meson divide_pos_pos less_le_trans zero_less_one)
  then show "\<bar>x\<bar> < overflow_threshold"
    using assms(2,4) by simp
  have "1 / 2 ^ 1075 < 1 / K"
    using assms(3,4) overflow_threshold_bounds(2) by (simp add: frac_less2)
  with assms(1) x show "underflow_threshold < \<bar>x\<bar>"
    by (simp add: underflow_threshold_def)
qed

lemma betweenD: "between lo hi x \<Longrightarrow> \<exists>a. x = Num a \<and> lo \<le> a \<and> a \<le> hi"
  by (cases x) simp_all

lemma root_of_power: "0 < t \<Longrightarrow> 0 < n \<Longrightarrow> (t ^ n) powr (1 / real n) = (t::real)"
  by (simp add: powr_realpow [symmetric] powr_powr)

lemma row_product_within:
  assumes B: "1 \<le> B" and K: "B ^ k \<le> K" "K < overflow_threshold"
    and row: "\<forall>j<k. between (1 / B) B (row ! j)"
  shows "\<exists>p. fold (\<lambda>j product. js_mul product (row ! j)) [0..<k] (Num 1) = Num p \<and>
             1 / B ^ k \<le> p \<and> p \<le> B ^ k"
  using K(1) row
proof (induction k)
  case 0
  then show ?case by simp
next
  case (Suc k)
  have Bk: "B ^ k \<le> B ^ Suc k"
    using B by (simp add: mult_left_le_one_le mult.commute)
  with Suc.prems(1) have "B ^ k \<le> K"
    by simp
  with Suc.IH Suc.prems(2) obtain p
    where p: "fold (\<lambda>j product. js_mul product (row ! j)) [0..<k] (Num 1) = Num p"
      "1 / B ^ k \<le> p" "p \<le> B ^ k"
    by auto
  from Suc.prems(2) obtain a where a: "row ! k = Num a" "1 / B \<le> a" "a \<le> B"
    using betweenD [of "1 / B" B "row ! k"] by auto
  have B0: "0 < B" and Bk0: "0 < B ^ k"
    using B by simp_all
  have p0: "0 < p" and a0: "0 < a"
    using p(2) a(2) B0 Bk0 by (meson divide_pos_pos less_le_trans zero_less_one)+
  have up: "p * a \<le> B ^ Suc k"
    using mult_mono [OF p(3) a(3)] Bk0 a0 by (simp add: mult.commute)
  have "(1 / B ^ k) * (1 / B) \<le> p * a"
    using p(2) a(2) B0 Bk0 p0 a0 by (intro mult_mono) simp_all
  then have lo: "1 / B ^ Suc k \<le> p * a"
    by (simp add: mult.commute)
  have K0: "0 < K"
    using Suc.prems(1) B0 by (meson less_le_trans zero_less_power)
  have "1 / K \<le> 1 / B ^ Suc k"
    using Suc.prems(1) B0 by (simp add: frac_le)
  with lo have "1 / K \<le> p * a"
    by simp
  moreover have "p * a \<le> K"
    using up Suc.prems(1) by simp
  ultimately have "finite_result (p * a) = Num (p * a)"
    using K0 K(2) by (rule finite_result_within)
  with p(1) a(1) lo up show ?case
    by simp
qed

lemma bound_facts:
  assumes "1 \<le> n" and "1 \<le> B" and "real n * B ^ (n + 1) \<le> K"
  shows "B ^ n \<le> K" and "B \<le> K" and "real n \<le> K" and "real n * B \<le> K"
    and "real n * B\<^sup>2 \<le> K" and "B\<^sup>2 \<le> K" and "1 \<le> K"
proof -
  have n: "1 \<le> real n" using assms(1) by simp
  have p1: "1 \<le> B ^ (n + 1)" using assms(2) by (rule one_le_power)
  have le: "B ^ k \<le> B ^ (n + 1)" if "k \<le> n + 1" for k
    using that assms(2) by (rule power_increasing)
  have top: "B ^ (n + 1) \<le> real n * B ^ (n + 1)"
    using n p1 by (simp add: mult_le_cancel_right1)
  show "B ^ n \<le> K" using le [of n] top assms(3) by simp
  show "B \<le> K" using le [of 1] top assms(3) by simp
  show "B\<^sup>2 \<le> K" using le [of 2] top assms(1,3) by simp
  have "real n * 1 \<le> real n * B ^ (n + 1)"
    using p1 by (intro mult_left_mono) simp_all
  with assms(3) show "real n \<le> K" by simp
  have "real n * B ^ 1 \<le> real n * B ^ (n + 1)"
    using le [of 1] by (intro mult_left_mono) simp_all
  with assms(3) show "real n * B \<le> K" by simp
  have "real n * B ^ 2 \<le> real n * B ^ (n + 1)"
    using le [of 2] assms(1) by (intro mult_left_mono) simp_all
  with assms(3) show "real n * B\<^sup>2 \<le> K" by simp
  from n \<open>real n \<le> K\<close> show "1 \<le> K" by simp
qed

lemma geoMeans_within:
  assumes n: "1 \<le> n" and B: "1 \<le> B" and K: "real n * B ^ (n + 1) \<le> K" "K < overflow_threshold"
    and m: "entries_between (1 / B) B n m"
  shows "\<exists>gs. geoMeans m n = map Num gs \<and> length gs = n \<and> (\<forall>g\<in>set gs. 1 / B \<le> g \<and> g \<le> B)"
proof -
  note bf = bound_facts [OF n B K(1)]
  have K0: "0 < K" using bf(7) by simp
  have B0: "0 < B" using B by simp
  have n0: "0 < real n" using n by simp
  have "1 / K \<le> 1 / real n"
    using bf(3) n0 by (simp add: frac_le)
  moreover have "1 / real n \<le> 1"
    using n by simp
  then have "1 / real n \<le> K"
    using bf(7) by simp
  ultimately have "finite_result (1 / real n) = Num (1 / real n)"
    using K0 K(2) by (rule finite_result_within)
  with n0 have expo: "js_div (Num 1) (Num (real n)) = Num (1 / real n)"
    by simp
  have "\<exists>g. Math_pow (row_product m n i) (js_div (Num 1) (Num (real n))) = Num g \<and>
            1 / B \<le> g \<and> g \<le> B"
    if "i < n" for i
  proof -
    have "\<forall>j<n. between (1 / B) B (m ! i ! j)"
      using m that by (simp add: entries_between_def)
    with B bf(1) K(2) obtain p where p: "row_product m n i = Num p" "1 / B ^ n \<le> p" "p \<le> B ^ n"
      unfolding row_product_def using row_product_within [of B n K "m ! i"] by auto
    have p0: "0 < p"
      using p(2) B0 by (meson divide_pos_pos less_le_trans zero_less_one zero_less_power)
    have "p powr (1 / real n) \<le> (B ^ n) powr (1 / real n)"
      using p0 p(3) by (intro powr_mono2) simp_all
    then have up: "p powr (1 / real n) \<le> B"
      using root_of_power [of B n] B0 n by simp
    have "((1 / B) ^ n) powr (1 / real n) \<le> p powr (1 / real n)"
      using p(2) B0 by (intro powr_mono2) (simp_all add: power_one_over)
    then have lo: "1 / B \<le> p powr (1 / real n)"
      using root_of_power [of "1 / B" n] B0 n by simp
    have "1 / K \<le> 1 / B"
      using bf(2) B0 by (simp add: frac_le)
    with lo have "1 / K \<le> p powr (1 / real n)"
      by simp
    moreover have "p powr (1 / real n) \<le> K"
      using up bf(2) by simp
    ultimately have "finite_result (p powr (1 / real n)) = Num (p powr (1 / real n))"
      using K0 K(2) by (rule finite_result_within)
    with p(1) p0 n0 lo up show ?thesis
      by (simp add: expo del: js_div.simps)
  qed
  then obtain f where f: "\<And>i. i < n \<Longrightarrow>
      Math_pow (row_product m n i) (js_div (Num 1) (Num (real n))) = Num (f i) \<and>
      1 / B \<le> f i \<and> f i \<le> B"
    by metis
  have "map (\<lambda>i. Math_pow (row_product m n i) (js_div (Num 1) (Num (real n)))) [0..<n]
      = map (\<lambda>i. Num (f i)) [0..<n]"
    by (rule map_cong [OF refl]) (simp add: f del: Math_pow.simps js_div.simps)
  then have "geoMeans m n = map Num (map f [0..<n])"
    by (simp add: geoMeans_def comp_def del: Math_pow.simps js_div.simps)
  moreover have "\<forall>g\<in>set (map f [0..<n]). 1 / B \<le> g \<and> g \<le> B"
    using f by simp
  ultimately show ?thesis
    by (intro exI [of _ "map f [0..<n]"]) simp
qed

lemma sum_list_bounds:
  fixes gs :: "real list"
  assumes "\<forall>g\<in>set gs. lo \<le> g \<and> g \<le> hi"
  shows "real (length gs) * lo \<le> sum_list gs \<and> sum_list gs \<le> real (length gs) * hi"
  using assms by (induction gs) (auto simp: algebra_simps)

lemma js_sum_within:
  assumes "\<forall>g\<in>set gs. lo \<le> g" and "1 / K \<le> lo" and "0 < K" and "K < overflow_threshold"
    and "0 \<le> z" and "z + sum_list gs \<le> K"
  shows "fold (\<lambda>b a. js_add a b) (map Num gs) (Num z) = Num (z + sum_list gs)"
  using assms(1,5,6)
proof (induction gs arbitrary: z)
  case Nil
  then show ?case by simp
next
  case (Cons g gs)
  have lo0: "0 < lo"
    using assms(2,3) by (meson divide_pos_pos less_le_trans zero_less_one)
  have g: "lo \<le> g" and rest: "\<forall>x\<in>set gs. lo \<le> x"
    using Cons.prems(1) by simp_all
  have "0 \<le> sum_list gs"
    using rest lo0 by (intro sum_list_nonneg) force
  with Cons.prems(3) have up: "z + g \<le> K"
    by simp
  have "1 / K \<le> z + g"
    using assms(2) g Cons.prems(2) by simp
  then have "finite_result (z + g) = Num (z + g)"
    using up assms(3,4) by (rule finite_result_within)
  moreover have "fold (\<lambda>b a. js_add a b) (map Num gs) (Num (z + g)) = Num (z + g + sum_list gs)"
    using rest lo0 g Cons.prems(2,3) by (intro Cons.IH) (simp_all add: add.assoc)
  ultimately show ?case
    by (simp add: add.assoc)
qed

text \<open>
  Claim C4, as the script has it: for a matrix of order \<open>n \<ge> 1\<close> whose entries all lie
  between \<open>1 / B\<close> and \<open>B\<close>, for a bound \<open>B \<ge> 1\<close> with \<open>n * B^(n+1)\<close> below the overflow
  threshold of the doubles, \<open>calculateWeights\<close> returns \<open>n\<close> weights, each finite and
  strictly positive, whose sum is within \<open>1e-9\<close> of 1; and for \<open>n = 1\<close> the result is
  \<open>[1]\<close>.
\<close>

theorem calculateWeights_normalised_in_range:
  assumes n: "1 \<le> n" and B: "1 \<le> B"
    and K: "real n * B ^ (n + 1) < overflow_threshold"
    and m: "entries_between (1 / B) B n m"
  shows "length (calculateWeights m n) = n \<and>
         (\<forall>w\<in>set (calculateWeights m n). is_positive w) \<and>
         (\<exists>s. js_sum (calculateWeights m n) = Num s \<and> \<bar>s - 1\<bar> \<le> 1 / 10 ^ 9) \<and>
         (n = 1 \<longrightarrow> calculateWeights m n = [Num 1])"
proof -
  define K where "K = real n * B ^ (n + 1)"
  have KK: "real n * B ^ (n + 1) \<le> K" and KT: "K < overflow_threshold"
    using K by (simp_all add: K_def)
  note bf = bound_facts [OF n B KK]
  have K0: "0 < K" using bf(7) by simp
  have B0: "0 < B" using B by simp
  have n0: "0 < real n" using n by simp
  from geoMeans_within [OF n B KK KT m] obtain gs
    where gs: "geoMeans m n = map Num gs" "length gs = n" "\<forall>g\<in>set gs. 1 / B \<le> g \<and> g \<le> B"
    by auto
  define s where "s = sum_list gs"
  have sb: "real n * (1 / B) \<le> s" "s \<le> real n * B"
    using sum_list_bounds [OF gs(3)] by (simp_all add: s_def gs(2))
  have "1 / B \<le> real n * (1 / B)"
    using n B0 by (simp add: divide_le_cancel)
  with sb(1) have slo: "1 / B \<le> s"
    by simp
  then have s0: "0 < s"
    using B0 by (meson divide_pos_pos less_le_trans zero_less_one)
  have KB: "1 / K \<le> 1 / B"
    using bf(2) B0 by (simp add: frac_le)
  have sK: "0 + sum_list gs \<le> K"
    using sb(2) bf(4) by (simp add: s_def)
  have "fold (\<lambda>b a. js_add a b) (map Num gs) (Num 0) = Num (0 + sum_list gs)"
    using gs(3) KB K0 KT sK by (intro js_sum_within [where lo = "1 / B" and K = K]) simp_all
  then have sum: "js_sum (map Num gs) = Num s"
    by (simp add: js_sum_def s_def)
  have quot: "js_div (Num g) (Num s) = Num (g / s) \<and> 1 / K \<le> g / s \<and> 0 < g / s"
    if "g \<in> set gs" for g
  proof -
    from gs(3) that have g: "1 / B \<le> g" "g \<le> B"
      by simp_all
    have g0: "0 < g"
      using g(1) B0 by (meson divide_pos_pos less_le_trans zero_less_one)
    have "(1 / B) / (real n * B) \<le> g / s"
      using g(1) sb(2) s0 g0 B0 by (intro frac_le) simp_all
    moreover have "1 / K \<le> (1 / B) / (real n * B)"
      using bf(5) B0 n0 by (simp add: power2_eq_square frac_le mult.commute mult.left_commute)
    ultimately have lo: "1 / K \<le> g / s"
      by simp
    have "g / s \<le> B / (1 / B)"
      using g(2) slo g0 B0 by (intro frac_le) simp_all
    then have "g / s \<le> B\<^sup>2"
      by (simp add: power2_eq_square)
    with bf(6) have "g / s \<le> K"
      by simp
    with lo have "finite_result (g / s) = Num (g / s)"
      using K0 KT by (rule finite_result_within)
    with s0 g0 lo show ?thesis
      by simp
  qed
  define ws where "ws = map (\<lambda>g. g / s) gs"
  have "map (\<lambda>g. js_div g (Num s)) (map Num gs) = map Num ws"
    by (simp add: ws_def quot del: js_div.simps)
  then have w: "calculateWeights m n = map Num ws"
    unfolding calculateWeights_def Let_def gs(1) sum .
  have len: "length (calculateWeights m n) = n"
    by (simp add: w ws_def gs(2))
  have pos: "\<forall>w\<in>set (calculateWeights m n). is_positive w"
    using quot by (auto simp: w ws_def)
  have "sum_list ws = sum_list gs / s"
    unfolding ws_def by (induction gs) (simp_all add: add_divide_distrib)
  then have one: "sum_list ws = 1"
    using s0 by (simp add: s_def)
  have wlo: "\<forall>w\<in>set ws. 1 / K \<le> w"
    using quot by (simp add: ws_def)
  have "fold (\<lambda>b a. js_add a b) (map Num ws) (Num 0) = Num (0 + sum_list ws)"
    using wlo K0 KT bf(7) by (intro js_sum_within [where lo = "1 / K" and K = K]) (simp_all add: one)
  then have total: "js_sum (calculateWeights m n) = Num 1"
    by (simp add: js_sum_def w one)
  have single: "calculateWeights m n = [Num 1]" if "n = 1"
  proof -
    from that gs(2) obtain g where g: "gs = [g]"
      by (cases gs) auto
    with s0 show ?thesis
      by (simp add: w ws_def s_def)
  qed
  from len pos total single show ?thesis
    by simp
qed

lemma entries_ab: "entries_between (1 / 3) 3 2 [[Num 1, Num 3], [Num (1 / 3), Num 1]]"
  by (simp add: entries_between_def numeral_2_eq_2 less_Suc_eq)

text \<open>Claim C4 at the matrix of the single judgment \<open>(A, B, 3)\<close>, with the bound 3.\<close>

theorem calculateWeights_normalised_in_range_witness:
  "length (calculateWeights [[Num 1, Num 3], [Num (1 / 3), Num 1]] 2) = 2 \<and>
   (\<exists>s. js_sum (calculateWeights [[Num 1, Num 3], [Num (1 / 3), Num 1]] 2) = Num s \<and>
        \<bar>s - 1\<bar> \<le> 1 / 10 ^ 9)"
proof -
  have n: "(1::nat) \<le> 2" and B: "(1::real) \<le> 3"
    by simp_all
  have K: "real 2 * 3 ^ (2 + 1) < overflow_threshold"
    by (simp add: overflow_threshold_def)
  from calculateWeights_normalised_in_range [OF n B K entries_ab] show ?thesis
    by blast
qed

lemma upt_3: "[0..<3] = [0, 1, 2]"
  by (simp add: numeral_3_eq_3)

lemma Math_pow_at_most_1:
  assumes "0 < x" and "x \<le> 1" and "0 < y"
  shows "\<exists>g. Math_pow (Num x) (Num y) = Num g"
proof -
  have "x powr y \<le> 1"
    using powr_mono2 [of y x 1] assms by simp
  moreover have "0 \<le> x powr y"
    by simp
  ultimately have "\<not> overflow_threshold \<le> \<bar>x powr y\<bar>"
    using overflow_threshold_bounds(1) by simp
  then have "finite_result (x powr y) = Num 0 \<or> finite_result (x powr y) = Num (x powr y)"
    by (simp add: finite_result_def)
  with assms(1,3) show ?thesis
    by auto
qed

lemma ids_huge: "item_ids huge_judgements = [''A'', ''B'', ''C'']"
  by (simp add: item_ids_def new_Set_def flatMap_def huge_judgements_def)

lemma bm_huge: "buildMatrix [''A'', ''B'', ''C''] huge_judgements = huge_matrix"
  by (simp add: buildMatrix_def fill_default_def init_matrix_def fill_step_def set_cell_def
      huge_judgements_def huge_matrix_def upt_3 range_simps)

lemma positive_huge: "positive_entries 3 huge_matrix"
  by (simp add: positive_entries_def huge_matrix_def numeral_3_eq_3 less_Suc_eq)

lemma rows_huge:
  "row_product huge_matrix 3 0 = PInf"
  "row_product huge_matrix 3 1 = Num (1 / 2 ^ 600)"
  "row_product huge_matrix 3 2 = Num (1 / 2 ^ 600)"
  by (simp_all add: row_product_def huge_matrix_def upt_3 range_simps)

lemma weights_huge: "calculateWeights huge_matrix 3 = [NaN, Num 0, Num 0]"
proof -
  have expo: "js_div (Num 1) (Num (real 3)) = Num (1 / 3)"
    by (simp add: range_simps)
  obtain g where g: "Math_pow (Num (1 / 2 ^ 600)) (Num (1 / 3)) = Num g"
    using Math_pow_at_most_1 [of "1 / 2 ^ 600" "1 / 3"] by auto
  have top: "Math_pow PInf (Num (1 / 3)) = PInf"
    by simp
  have "geoMeans huge_matrix 3 = [PInf, Num g, Num g]"
    unfolding geoMeans_def upt_3 expo list.map rows_huge g top ..
  then show ?thesis
    by (simp add: calculateWeights_def js_sum_def)
qed

text \<open>
  Claim C4 as the specification states it fails: the judgments \<open>(A, B, 2^600)\<close> and
  \<open>(A, C, 2^600)\<close> give a matrix of strictly positive entries whose first row product,
  \<open>2^1200\<close>, overflows to \<open>Infinity\<close>; the sum of the geometric means is \<open>Infinity\<close> and the
  weights are \<open>NaN\<close>, 0 and 0: none is positive and their sum is \<open>NaN\<close>.
\<close>

theorem overflowing_row_product_breaks_weights:
  "buildMatrix (item_ids huge_judgements) huge_judgements = huge_matrix \<and>
   positive_entries 3 huge_matrix \<and>
   calculateWeights huge_matrix 3 = [NaN, Num 0, Num 0] \<and>
   \<not> is_positive (calculateWeights huge_matrix 3 ! 0) \<and>
   js_sum (calculateWeights huge_matrix 3) = NaN"
  unfolding ids_huge bm_huge weights_huge
  using positive_huge by (simp add: js_sum_def)

section \<open>Evaluation at concrete groups\<close>

lemma cube_root_8: "(8::real) powr (1 / 3) = 2"
  using root_of_power [of 2 3] by simp

lemma cube_root_8th: "(1 / 8 :: real) powr (1 / 3) = 1 / 2"
  using root_of_power [of "1 / 2" 3] by (simp add: range_simps power_divide)

subsection \<open>Groups of one and two items\<close>

lemma ids_unit_self: "item_ids [unit_self_judgement] = [''A'']"
  by (simp add: range_simps item_ids_def new_Set_def flatMap_def unit_self_judgement_def)

lemma bm_unit_self: "buildMatrix [''A''] [unit_self_judgement] = [[Num 1]]"
  by (simp add: range_simps buildMatrix_def fill_default_def init_matrix_def fill_step_def set_cell_def
      unit_self_judgement_def)

lemma weights_order_1: "calculateWeights [[Num 1]] 1 = [Num 1]"
  by (simp add: range_simps calculateWeights_def geoMeans_def row_product_def js_sum_def)

lemma cr_order_1:
  "calculateCR [[Num 1]] [Num 1] 1 = \<lparr>lambdaMax = Num 1, CI = NaN, CR = NaN\<rparr>"
  by (simp add: range_simps calculateCR_def Aw_def js_sub_def ri_or_default_def RI_def Let_def)

lemma ids_zero: "item_ids [zero_judgement] = [''A'', ''B'']"
  by (simp add: range_simps item_ids_def new_Set_def flatMap_def zero_judgement_def)

lemma weights_zero: "calculateWeights [[Num 1, Num 0], [PInf, Num 1]] 2 = [Num 0, NaN]"
  by (simp add: range_simps calculateWeights_def geoMeans_def row_product_def js_sum_def numeral_2_eq_2
      inf_times_def)

lemma cr_zero:
  "calculateCR [[Num 1, Num 0], [PInf, Num 1]] [Num 0, NaN] 2
     = \<lparr>lambdaMax = NaN, CI = NaN, CR = NaN\<rparr>"
  by (simp add: range_simps calculateCR_def Aw_def js_sub_def ri_or_default_def RI_def Let_def numeral_2_eq_2
      inf_times_def)

text \<open>
  Claim C2 fails on the script. For a matrix of order 1, \<open>CI\<close> is \<open>(1 - 1) / (1 - 1)\<close>,
  which is \<open>NaN\<close>; the entry \<open>RI[1] = 0\<close> is falsy, so \<open>RI[n] || 1.5\<close> is \<open>1.5\<close> and the
  branch \<open>CR = 0\<close> guarded by \<open>ri > 0\<close> is never taken: \<open>CR\<close> is \<open>NaN\<close> and the flag is
  false. The same holds at order 2, where a group whose only judgment has ratio 0 gets
  \<open>CR = NaN\<close> and the flag false.
\<close>

theorem order_1_and_2_not_forced_consistent:
  "calculateCR [[Num 1]] [Num 1] 1 = \<lparr>lambdaMax = Num 1, CI = NaN, CR = NaN\<rparr> \<and>
   res_n (evaluate_section [unit_self_judgement]) = 1 \<and>
   res_CI (evaluate_section [unit_self_judgement]) = NaN \<and>
   res_CR (evaluate_section [unit_self_judgement]) = NaN \<and>
   \<not> res_consistent (evaluate_section [unit_self_judgement]) \<and>
   ri_or_default 1 = 1.5 \<and> ri_or_default 2 = 1.5 \<and>
   res_n (evaluate_section [zero_judgement]) = 2 \<and>
   res_CR (evaluate_section [zero_judgement]) = NaN \<and>
   \<not> res_consistent (evaluate_section [zero_judgement])"
proof -
  have n1: "length [''A''] = 1" and n2: "length [''A'', ''B''] = 2"
    by simp_all
  have one: "evaluate_section [unit_self_judgement] =
      \<lparr>res_n = 1, res_weights = [''A'' \<mapsto> Num 1], res_lambdaMax = Num 1,
       res_CI = NaN, res_CR = NaN, res_consistent = False\<rparr>"
    unfolding evaluate_section_def Let_def ids_unit_self n1 bm_unit_self weights_order_1
      cr_order_1
    by (simp add: range_simps weightMap_def round4_def)
  have two: "evaluate_section [zero_judgement] =
      \<lparr>res_n = 2, res_weights = [''A'' \<mapsto> Num 0, ''B'' \<mapsto> NaN], res_lambdaMax = NaN,
       res_CI = NaN, res_CR = NaN, res_consistent = False\<rparr>"
    unfolding evaluate_section_def Let_def ids_zero n2 bm_zero weights_zero cr_zero
    by (simp add: range_simps weightMap_def round4_def)
  have ri: "ri_or_default 1 = 1.5 \<and> ri_or_default 2 = 1.5"
    by (simp add: range_simps ri_or_default_def RI_def)
  show ?thesis
    unfolding one two cr_order_1 using ri by simp
qed

text \<open>
  Claim C5 fails on the script at order 1: the matrix \<open>[[1]]\<close>, built from the judgment
  \<open>(A, A, 1)\<close>, is positive and reciprocal, and its \<open>CR\<close> is \<open>NaN\<close>, which is not
  \<open>\<ge> 0\<close>.
\<close>

theorem order_1_CR_not_nonnegative:
  "buildMatrix (item_ids [unit_self_judgement]) [unit_self_judgement] = [[Num 1]] \<and>
   is_positive ([[Num 1]] ! 0 ! 0) \<and>
   js_mul ([[Num 1]] ! 0 ! 0) ([[Num 1]] ! 0 ! 0) = Num 1 \<and>
   CR (calculateCR [[Num 1]] (calculateWeights [[Num 1]] 1) 1) = NaN \<and>
   \<not> js_ge (CR (calculateCR [[Num 1]] (calculateWeights [[Num 1]] 1) 1)) (Num 0)"
  unfolding ids_unit_self bm_unit_self weights_order_1 cr_order_1
  by (simp add: finite_result_1)

subsection \<open>The scenario of three dimensions\<close>

lemma ids_scenario: "item_ids scenario_dimensions = [''A'', ''B'', ''C'']"
  by (simp add: range_simps item_ids_def new_Set_def flatMap_def scenario_dimensions_def)

lemma bm_scenario:
  "buildMatrix [''A'', ''B'', ''C''] scenario_dimensions =
     [[Num 1, Num 2, Num 4], [Num (1 / 2), Num 1, Num 2], [Num (1 / 4), Num (1 / 2), Num 1]]"
  by (simp add: range_simps buildMatrix_def fill_default_def init_matrix_def fill_step_def set_cell_def
      scenario_dimensions_def upt_3)

lemma weights_scenario:
  "calculateWeights
     [[Num 1, Num 2, Num 4], [Num (1 / 2), Num 1, Num 2], [Num (1 / 4), Num (1 / 2), Num 1]] 3
   = [Num (4 / 7), Num (2 / 7), Num (1 / 7)]"
  by (simp add: range_simps calculateWeights_def geoMeans_def row_product_def js_sum_def upt_3
      cube_root_8 cube_root_8th)

lemma cr_scenario:
  "calculateCR
     [[Num 1, Num 2, Num 4], [Num (1 / 2), Num 1, Num 2], [Num (1 / 4), Num (1 / 2), Num 1]]
     [Num (4 / 7), Num (2 / 7), Num (1 / 7)] 3
   = \<lparr>lambdaMax = Num 3, CI = Num 0, CR = Num 0\<rparr>"
  by (simp add: range_simps calculateCR_def Aw_def js_sub_def ri_or_default_def RI_def upt_3 Let_def)

lemma section_scenario:
  "evaluate_section scenario_dimensions =
     \<lparr>res_n = 3,
      res_weights = [''A'' \<mapsto> Num 0.5714, ''B'' \<mapsto> Num 0.2857, ''C'' \<mapsto> Num 0.1429],
      res_lambdaMax = Num 3, res_CI = Num 0, res_CR = Num 0, res_consistent = True\<rparr>"
proof -
  have n: "length [''A'', ''B'', ''C''] = 3"
    by simp
  show ?thesis
    unfolding evaluate_section_def Let_def ids_scenario n bm_scenario weights_scenario
      cr_scenario
    by (simp add: range_simps weightMap_def round4_def)
qed

text \<open>
  Claim C7: for the group \<open>dimensions\<close> with the judgments \<open>(A, B, 2)\<close>, \<open>(A, C, 4)\<close>,
  \<open>(B, C, 2)\<close> the result has the weights \<open>0.5714\<close>, \<open>0.2857\<close>, \<open>0.1429\<close>,
  \<open>CR = 0\<close> and \<open>consistent = true\<close>.
\<close>

theorem scenario_dimensions_result:
  "calculateAHP scenario_submission = Inr [''dimensions'' \<mapsto> evaluate_section scenario_dimensions] \<and>
   res_weights (evaluate_section scenario_dimensions) ''A'' = Some (Num 0.5714) \<and>
   res_weights (evaluate_section scenario_dimensions) ''B'' = Some (Num 0.2857) \<and>
   res_weights (evaluate_section scenario_dimensions) ''C'' = Some (Num 0.1429) \<and>
   res_CR (evaluate_section scenario_dimensions) = Num 0 \<and>
   res_consistent (evaluate_section scenario_dimensions)"
proof -
  have "scenario_dimensions \<noteq> []"
    by (simp add: range_simps scenario_dimensions_def)
  then have "calculateAHP scenario_submission =
      Inr [''dimensions'' \<mapsto> evaluate_section scenario_dimensions]"
    by (simp add: range_simps calculateAHP_def scenario_submission_def sections_def section_step_def)
  then show ?thesis
    unfolding section_scenario by simp
qed

subsection \<open>Rounding of the reported ratio\<close>

lemma cube_root_borderline: "(15069223 / 5451776 :: real) powr (1 / 3) = 247 / 176"
  using root_of_power [of "247 / 176" 3] by (simp add: range_simps power_divide)

lemma cube_root_borderline_inverse: "(5451776 / 15069223 :: real) powr (1 / 3) = 176 / 247"
  using root_of_power [of "176 / 247" 3] by (simp add: range_simps power_divide)

lemma ids_borderline: "item_ids borderline_judgements = [''A'', ''B'', ''C'']"
  by (simp add: range_simps item_ids_def new_Set_def flatMap_def borderline_judgements_def)

lemma bm_borderline: "buildMatrix [''A'', ''B'', ''C''] borderline_judgements = borderline_matrix"
  by (simp add: range_simps buildMatrix_def fill_default_def init_matrix_def fill_step_def set_cell_def
      borderline_judgements_def borderline_matrix_def upt_3)

lemma weights_borderline: "calculateWeights borderline_matrix 3 = borderline_weights"
  by (simp add: range_simps calculateWeights_def geoMeans_def row_product_def js_sum_def upt_3
      borderline_matrix_def borderline_weights_def cube_root_borderline
      cube_root_borderline_inverse)

lemma cr_borderline:
  "calculateCR borderline_matrix borderline_weights 3 =
     \<lparr>lambdaMax = Num (135457 / 43472), CI = Num (5041 / 86944),
      CR = Num (126025 / 1260688)\<rparr>"
  by (simp add: range_simps calculateCR_def Aw_def js_sub_def ri_or_default_def RI_def upt_3 Let_def
      borderline_matrix_def borderline_weights_def)

text \<open>
  Claim C10: in every section result the flag is the comparison of the unrounded \<open>CR\<close>
  with \<open>0.1\<close> while the reported \<open>CR\<close> is that value rounded to four decimals; and for
  the judgments \<open>(A, B, 15069223 / 5451776)\<close>, \<open>(A, C, 1)\<close>, \<open>(B, C, 1)\<close> the unrounded
  \<open>CR\<close> is \<open>126025 / 1260688\<close>, just below \<open>0.1\<close>, so the result reports \<open>CR = 0.1\<close>
  together with \<open>consistent = true\<close>.
\<close>

theorem consistent_from_unrounded_CR:
  "(\<forall>cs. res_consistent (evaluate_section cs) =
          js_lt (CR (calculateCR (buildMatrix (item_ids cs) cs)
                       (calculateWeights (buildMatrix (item_ids cs) cs) (length (item_ids cs)))
                       (length (item_ids cs))))
                (Num 0.1) \<and>
        res_CR (evaluate_section cs) =
          round4 (CR (calculateCR (buildMatrix (item_ids cs) cs)
                       (calculateWeights (buildMatrix (item_ids cs) cs) (length (item_ids cs)))
                       (length (item_ids cs))))) \<and>
   CR (calculateCR (buildMatrix (item_ids borderline_judgements) borderline_judgements)
         (calculateWeights (buildMatrix (item_ids borderline_judgements) borderline_judgements)
            (length (item_ids borderline_judgements)))
         (length (item_ids borderline_judgements))) = Num (126025 / 1260688) \<and>
   res_CR (evaluate_section borderline_judgements) = Num 0.1 \<and>
   res_consistent (evaluate_section borderline_judgements)"
proof -
  have n: "length [''A'', ''B'', ''C''] = 3"
    by simp
  have general: "res_consistent (evaluate_section cs) =
          js_lt (CR (calculateCR (buildMatrix (item_ids cs) cs)
                       (calculateWeights (buildMatrix (item_ids cs) cs) (length (item_ids cs)))
                       (length (item_ids cs))))
                (Num 0.1) \<and>
        res_CR (evaluate_section cs) =
          round4 (CR (calculateCR (buildMatrix (item_ids cs) cs)
                       (calculateWeights (buildMatrix (item_ids cs) cs) (length (item_ids cs)))
                       (length (item_ids cs))))" for cs
    by (simp add: range_simps evaluate_section_def Let_def)
  have unrounded: "CR (calculateCR (buildMatrix (item_ids borderline_judgements) borderline_judgements)
         (calculateWeights (buildMatrix (item_ids borderline_judgements) borderline_judgements)
            (length (item_ids borderline_judgements)))
         (length (item_ids borderline_judgements))) = Num (126025 / 1260688)"
    unfolding ids_borderline n bm_borderline weights_borderline cr_borderline by simp
  have reported: "res_CR (evaluate_section borderline_judgements) = Num 0.1"
    using conjunct2 [OF general, of borderline_judgements] unfolding unrounded
    by (simp add: range_simps round4_def)
  have flag: "res_consistent (evaluate_section borderline_judgements)"
    using conjunct1 [OF general, of borderline_judgements] unfolding unrounded
    by simp
  from general unrounded reported flag show ?thesis
    by blast
qed

section \<open>Properties of the submission loop\<close>

lemma section_step_at:
  "section_step block x acc s =
     (if s = x
      then (case block x of
              None \<Rightarrow> acc s
            | Some cs \<Rightarrow> if cs = [] then acc s else Some (evaluate_section cs))
      else acc s)"
  by (simp add: section_step_def split: option.splits)

lemma fold_section_step:
  "fold (section_step block) ss acc s =
     (if s \<in> set ss
      then (case block s of
              None \<Rightarrow> acc s
            | Some cs \<Rightarrow> if cs = [] then acc s else Some (evaluate_section cs))
      else acc s)"
proof (induction ss arbitrary: acc)
  case Nil
  then show ?case by simp
next
  case (Cons x ss)
  have "fold (section_step block) (x # ss) acc s =
      fold (section_step block) ss (section_step block x acc) s"
    by simp
  also have "\<dots> =
     (if s \<in> set ss
      then (case block s of
              None \<Rightarrow> section_step block x acc s
            | Some cs \<Rightarrow>
                if cs = [] then section_step block x acc s else Some (evaluate_section cs))
      else section_step block x acc s)"
    by (rule Cons.IH)
  also have "\<dots> =
     (if s \<in> set (x # ss)
      then (case block s of
              None \<Rightarrow> acc s
            | Some cs \<Rightarrow> if cs = [] then acc s else Some (evaluate_section cs))
      else acc s)"
    by (simp add: section_step_at split: option.splits)
  finally show ?case .
qed

text \<open>
  Claim C8: when the comparisons block is present, \<open>calculateAHP\<close> returns a result whose
  keys are exactly the recognised group names that the block maps to a non-empty list, each
  with the evaluation of that list; a group that is absent or empty is left out, and no
  error is raised.
\<close>

theorem calculateAHP_groups:
  assumes "comparisons data = Some block"
  shows "\<exists>rs. calculateAHP data = Inr rs \<and>
           dom rs = {s \<in> set sections. \<exists>cs. block s = Some cs \<and> cs \<noteq> []} \<and>
           (\<forall>s cs. s \<in> set sections \<and> block s = Some cs \<and> cs \<noteq> [] \<longrightarrow>
                rs s = Some (evaluate_section cs)) \<and>
           (\<forall>s. block s = None \<or> block s = Some [] \<longrightarrow> rs s = None)"
proof -
  define rs where "rs = fold (section_step block) sections Map.empty"
  have r: "calculateAHP data = Inr rs"
    using assms by (simp add: calculateAHP_def rs_def)
  have at: "rs s =
     (if s \<in> set sections
      then (case block s of
              None \<Rightarrow> None
            | Some cs \<Rightarrow> if cs = [] then None else Some (evaluate_section cs))
      else None)" for s
    by (simp add: rs_def fold_section_step)
  have d: "dom rs = {s \<in> set sections. \<exists>cs. block s = Some cs \<and> cs \<noteq> []}"
    by (auto simp: dom_def at split: option.splits if_splits)
  have v: "\<forall>s cs. s \<in> set sections \<and> block s = Some cs \<and> cs \<noteq> [] \<longrightarrow>
                rs s = Some (evaluate_section cs)"
    by (simp add: at)
  have o: "\<forall>s. block s = None \<or> block s = Some [] \<longrightarrow> rs s = None"
    by (auto simp: at)
  from r d v o show ?thesis by blast
qed

text \<open>
  Claim C8 at a submission with the group \<open>dimensions\<close> filled, the group \<open>A\<close> empty, the
  groups \<open>B\<close>, \<open>C\<close>, \<open>D\<close> absent and an unrecognised group \<open>Z\<close>: the result has the single
  key \<open>dimensions\<close>.
\<close>

theorem calculateAHP_groups_witness:
  "\<exists>rs. calculateAHP mixed_submission = Inr rs \<and> dom rs = {''dimensions''} \<and>
        rs ''dimensions'' = Some (evaluate_section scenario_dimensions) \<and>
        rs ''A'' = None \<and> rs ''B'' = None \<and> rs ''Z'' = None"
proof -
  have b: "comparisons mixed_submission = Some mixed_block"
    by (simp add: mixed_submission_def)
  have ne: "scenario_dimensions \<noteq> []"
    by (simp add: scenario_dimensions_def)
  have mb: "mixed_block ''dimensions'' = Some scenario_dimensions" "mixed_block ''A'' = Some []"
    "mixed_block ''B'' = None" "mixed_block ''C'' = None" "mixed_block ''D'' = None"
    by (simp_all add: mixed_block_def)
  have keys: "{s \<in> set sections. \<exists>cs. mixed_block s = Some cs \<and> cs \<noteq> []} = {''dimensions''}"
    using ne mb by (auto simp: sections_def)
  from calculateAHP_groups [OF b] obtain rs where rs: "calculateAHP mixed_submission = Inr rs"
    "dom rs = {s \<in> set sections. \<exists>cs. mixed_block s = Some cs \<and> cs \<noteq> []}"
    "\<forall>s cs. s \<in> set sections \<and> mixed_block s = Some cs \<and> cs \<noteq> [] \<longrightarrow>
                rs s = Some (evaluate_section cs)"
    by blast
  have "rs ''dimensions'' = Some (evaluate_section scenario_dimensions)"
    using rs(3) ne mb(1) by (simp add: sections_def)
  moreover have d: "dom rs = {''dimensions''}"
    using rs(2) keys by simp
  moreover have "''A'' \<notin> dom rs" and "''B'' \<notin> dom rs" and "''Z'' \<notin> dom rs"
    unfolding d by simp_all
  then have "rs ''A'' = None" and "rs ''B'' = None" and "rs ''Z'' = None"
    by (simp_all add: domIff)
  ultimately show ?thesis
    using rs(1) by blast
qed

text \<open>
  Claim C9: when the comparisons block is missing, \<open>calculateAHP\<close> throws, so it returns no
  result at all; \<open>doPost\<close> catches the one error and answers with it, and no row is added
  to the sheet of results (the raw submission was stored before the evaluation).
\<close>

theorem missing_block_fails_whole:
  assumes "comparisons data = None"
  shows "calculateAHP data = Inl TypeError \<and>
         fst (doPost (Parsed data) ss) = Error_response TypeError \<and>
         result_rows (snd (doPost (Parsed data) ss)) = result_rows ss \<and>
         raw_rows (snd (doPost (Parsed data) ss)) = raw_rows ss @ [data]"
  using assms by (simp add: calculateAHP_def doPost_def saveRawData_def Let_def)

text \<open>Claim C9 at a submission that has only its \<open>meta\<close> block.\<close>

theorem missing_block_fails_whole_witness:
  "calculateAHP no_block_submission = Inl TypeError \<and>
   fst (doPost (Parsed no_block_submission) empty_spreadsheet) = Error_response TypeError \<and>
   result_rows (snd (doPost (Parsed no_block_submission) empty_spreadsheet)) = []"
proof -
  have "comparisons no_block_submission = None"
    by (simp add: no_block_submission_def)
  from missing_block_fails_whole [OF this, of empty_spreadsheet] show ?thesis
    by (simp add: empty_spreadsheet_def)
qed

section \<open>Order of the judgments\<close>

lemma new_Set_fold:
  "set (fold (\<lambda>x acc. if x \<in> set acc then acc else acc @ [x]) xs acc) = set acc \<union> set xs \<and>
   (distinct acc \<longrightarrow> distinct (fold (\<lambda>x acc. if x \<in> set acc then acc else acc @ [x]) xs acc))"
  by (induction xs arbitrary: acc) auto

lemma set_new_Set: "set (new_Set xs) = set xs"
  using new_Set_fold [of xs "[]"] by (simp add: range_simps new_Set_def)

lemma distinct_new_Set: "distinct (new_Set xs)"
  using new_Set_fold [of xs "[]"] by (simp add: range_simps new_Set_def)

lemma set_item_ids: "set (item_ids cs) = (\<Union>c\<in>set cs. {left c, right c})"
  by (auto simp: item_ids_def set_new_Set flatMap_def)

lemma item_ids_sorted_distinct: "sorted (item_ids cs) \<and> distinct (item_ids cs)"
  by (simp add: range_simps item_ids_def distinct_new_Set)

lemma item_ids_cong: "set cs' = set cs \<Longrightarrow> item_ids cs' = item_ids cs"
  by (intro sorted_distinct_set_unique) (simp_all add: range_simps item_ids_sorted_distinct set_item_ids)

lemma written_pair:
  assumes "written ids c a b = Some v"
  shows "ahp_ratio_aij c \<noteq> None \<and> {left c, right c} = {ids ! a, ids ! b}"
proof -
  from assms obtain ratio where r: "ahp_ratio_aij c = Some ratio"
    by (cases "ahp_ratio_aij c") (simp_all add: range_simps written_def)
  have i: "0 \<le> indexOf ids (left c)"
    using assms r by (simp add: range_simps written_def split: if_splits)
  have j: "0 \<le> indexOf ids (right c)"
    using assms r by (simp add: range_simps written_def split: if_splits)
  have "(a = nat (indexOf ids (right c)) \<and> b = nat (indexOf ids (left c))) \<or>
        (a = nat (indexOf ids (left c)) \<and> b = nat (indexOf ids (right c)))"
    using assms r i j by (simp add: range_simps written_def split: if_splits)
  then have "{left c, right c} = {ids ! a, ids ! b}"
    using indexOf_nth [OF i] indexOf_nth [OF j] by auto
  with r show ?thesis by simp
qed

lemma fill_step_commute:
  assumes sq: "square (length ids) m"
    and ok: "ahp_ratio_aij c \<noteq> None \<and> ahp_ratio_aij d \<noteq> None \<and>
             {left c, right c} = {left d, right d} \<longrightarrow> c = d"
  shows "fill_step ids c (fill_step ids d m) = fill_step ids d (fill_step ids c m)"
proof -
  let ?n = "length ids"
  have sc: "square ?n (fill_step ids c m)" and sd: "square ?n (fill_step ids d m)"
    using sq by (simp_all add: range_simps square_fill_step)
  have scd: "square ?n (fill_step ids c (fill_step ids d m))"
    and sdc: "square ?n (fill_step ids d (fill_step ids c m))"
    using sc sd by (simp_all add: range_simps square_fill_step)
  have cell: "fill_step ids c (fill_step ids d m) ! a ! b = fill_step ids d (fill_step ids c m) ! a ! b"
    if ab: "a < ?n" "b < ?n" for a b
  proof (cases "written ids c a b")
    case None
    then show ?thesis
      by (simp add: range_simps fill_step_nth [OF sd ab] fill_step_nth [OF sq ab] fill_step_nth [OF sc ab]
          split: option.splits)
  next
    case c: (Some v)
    show ?thesis
    proof (cases "written ids d a b")
      case None
      with c show ?thesis
        by (simp add: range_simps fill_step_nth [OF sd ab] fill_step_nth [OF sq ab] fill_step_nth [OF sc ab]
          split: option.splits)
    next
      case d: (Some w)
      from written_pair [OF c] written_pair [OF d] ok have "c = d"
        by simp
      then show ?thesis by simp
    qed
  qed
  have row: "fill_step ids c (fill_step ids d m) ! a = fill_step ids d (fill_step ids c m) ! a"
    if a: "a < ?n" for a
  proof (rule nth_equalityI)
    show "length (fill_step ids c (fill_step ids d m) ! a) =
          length (fill_step ids d (fill_step ids c m) ! a)"
      using scd sdc a by (simp add: range_simps square_def)
    fix b
    assume "b < length (fill_step ids c (fill_step ids d m) ! a)"
    then have "b < ?n"
      using scd a by (simp add: range_simps square_def)
    with a show "fill_step ids c (fill_step ids d m) ! a ! b =
                 fill_step ids d (fill_step ids c m) ! a ! b"
      by (rule cell)
  qed
  show ?thesis
  proof (rule nth_equalityI)
    show "length (fill_step ids c (fill_step ids d m)) = length (fill_step ids d (fill_step ids c m))"
      using scd sdc by (simp add: range_simps square_def)
    fix a
    assume "a < length (fill_step ids c (fill_step ids d m))"
    then have "a < ?n"
      using scd by (simp add: range_simps square_def)
    then show "fill_step ids c (fill_step ids d m) ! a = fill_step ids d (fill_step ids c m) ! a"
      by (rule row)
  qed
qed

lemma fold_fill_step_permuted:
  assumes "mset cs' = mset cs"
    and "\<forall>c\<in>set cs. \<forall>d\<in>set cs.
           ahp_ratio_aij c \<noteq> None \<and> ahp_ratio_aij d \<noteq> None \<and>
           {left c, right c} = {left d, right d} \<longrightarrow> c = d"
  shows "fold (fill_step ids) cs' (init_matrix (length ids)) =
         fold (fill_step ids) cs (init_matrix (length ids))"
proof (rule fold_permuted_eq [where P = "square (length ids)"])
  show "mset cs' = mset cs" by fact
  show "square (length ids) (init_matrix (length ids))" by (rule square_init)
  show "square (length ids) (fill_step ids x z)" if "square (length ids) z" for x z
    using that by (rule square_fill_step)
  have s: "set cs' = set cs"
    using assms(1) by (rule mset_eq_setD)
  show "fill_step ids x (fill_step ids y z) = fill_step ids y (fill_step ids x z)"
    if "x \<in> set cs'" "y \<in> set cs'" "square (length ids) z" for x y z
    using that assms(2) s by (intro fill_step_commute) auto
qed

text \<open>
  Claim C6, as the script has it: when no two different judgments with a ratio that is not
  null concern the same unordered pair of items, every permutation of the list gives the
  same identifiers, the same matrix, the same weights, the same consistency figures and
  the same section result.
\<close>

theorem permutation_same_result:
  assumes "mset cs' = mset cs"
    and "\<forall>c\<in>set cs. \<forall>d\<in>set cs.
           ahp_ratio_aij c \<noteq> None \<and> ahp_ratio_aij d \<noteq> None \<and>
           {left c, right c} = {left d, right d} \<longrightarrow> c = d"
  shows "item_ids cs' = item_ids cs \<and>
         buildMatrix (item_ids cs') cs' = buildMatrix (item_ids cs) cs \<and>
         calculateWeights (buildMatrix (item_ids cs') cs') (length (item_ids cs')) =
           calculateWeights (buildMatrix (item_ids cs) cs) (length (item_ids cs)) \<and>
         calculateCR (buildMatrix (item_ids cs') cs')
             (calculateWeights (buildMatrix (item_ids cs') cs') (length (item_ids cs')))
             (length (item_ids cs')) =
           calculateCR (buildMatrix (item_ids cs) cs)
             (calculateWeights (buildMatrix (item_ids cs) cs) (length (item_ids cs)))
             (length (item_ids cs)) \<and>
         evaluate_section cs' = evaluate_section cs"
proof -
  have ids: "item_ids cs' = item_ids cs"
    using assms(1) by (intro item_ids_cong mset_eq_setD)
  have "fold (fill_step (item_ids cs)) cs' (init_matrix (length (item_ids cs))) =
        fold (fill_step (item_ids cs)) cs (init_matrix (length (item_ids cs)))"
    using assms by (rule fold_fill_step_permuted)
  then have m: "buildMatrix (item_ids cs) cs' = buildMatrix (item_ids cs) cs"
    by (simp add: range_simps buildMatrix_def)
  show ?thesis
    by (simp add: range_simps ids m evaluate_section_def)
qed

text \<open>
  Claim C6 as the specification states it fails: the later of two judgments of the same
  pair overwrites the earlier, so the two orders of \<open>(A, B, 2)\<close>, \<open>(A, B, 3)\<close> give
  different matrices.
\<close>

theorem conflicting_judgements_order_matters:
  "mset [ab_judgement 3, ab_judgement 2] = mset [ab_judgement 2, ab_judgement 3] \<and>
   buildMatrix (item_ids [ab_judgement 3, ab_judgement 2]) [ab_judgement 3, ab_judgement 2] =
     [[Num 1, Num 2], [Num (1 / 2), Num 1]] \<and>
   buildMatrix (item_ids [ab_judgement 2, ab_judgement 3]) [ab_judgement 2, ab_judgement 3] =
     [[Num 1, Num 3], [Num (1 / 3), Num 1]] \<and>
   buildMatrix (item_ids [ab_judgement 3, ab_judgement 2]) [ab_judgement 3, ab_judgement 2] \<noteq>
   buildMatrix (item_ids [ab_judgement 2, ab_judgement 3]) [ab_judgement 2, ab_judgement 3]"
proof -
  have ids: "item_ids [ab_judgement 3, ab_judgement 2] = [''A'', ''B'']"
    "item_ids [ab_judgement 2, ab_judgement 3] = [''A'', ''B'']"
    by (simp_all add: range_simps item_ids_def new_Set_def flatMap_def ab_judgement_def)
  have m32: "buildMatrix [''A'', ''B''] [ab_judgement 3, ab_judgement 2] =
      [[Num 1, Num 2], [Num (1 / 2), Num 1]]"
    by (simp add: range_simps buildMatrix_def fill_default_def init_matrix_def fill_step_def set_cell_def
        ab_judgement_def)
  have m23: "buildMatrix [''A'', ''B''] [ab_judgement 2, ab_judgement 3] =
      [[Num 1, Num 3], [Num (1 / 3), Num 1]]"
    by (simp add: range_simps buildMatrix_def fill_default_def init_matrix_def fill_step_def set_cell_def
        ab_judgement_def)
  have p: "mset [ab_judgement 3, ab_judgement 2] = mset [ab_judgement 2, ab_judgement 3]"
    by (simp add: range_simps add.commute)
  show ?thesis
    unfolding ids m32 m23 using p by simp
qed

text \<open>Claim C6 at the three judgments of the scenario and their reversal.\<close>

theorem permutation_same_result_witness:
  "item_ids (rev scenario_dimensions) = item_ids scenario_dimensions \<and>
   buildMatrix (item_ids (rev scenario_dimensions)) (rev scenario_dimensions) =
     buildMatrix (item_ids scenario_dimensions) scenario_dimensions \<and>
   evaluate_section (rev scenario_dimensions) = evaluate_section scenario_dimensions"
proof -
  have p: "mset (rev scenario_dimensions) = mset scenario_dimensions"
    by simp
  have h: "\<forall>c\<in>set scenario_dimensions. \<forall>d\<in>set scenario_dimensions.
           ahp_ratio_aij c \<noteq> None \<and> ahp_ratio_aij d \<noteq> None \<and>
           {left c, right c} = {left d, right d} \<longrightarrow> c = d"
    by (simp add: range_simps scenario_dimensions_def doubleton_eq_iff)
  from permutation_same_result [OF p h] show ?thesis
    by blast
qed

end
